theory Spec2Isabelle
  imports Complex_Main "HOL-Library.Sublist" "HOL-Library.Multiset" "HOL-Library.Product_Lexorder"
begin

section \<open>Subject classifier (subject_categorizer.py)\<close>

text \<open>
  Python strings are modelled as \<^typ>\<open>string\<close>, one \<^typ>\<open>char\<close> per code point, which
  covers every string whose code points lie below 256. The keyword table is the dictionary
  of the source in its insertion order, which is the order in which Python iterates it.
\<close>

definition SUBJECT_CATEGORIES :: "(string \<times> string list) list" where
  "SUBJECT_CATEGORIES =
    [(''Mathematics'',
       [''math'', ''algebra'', ''geometry'', ''calculus'', ''trigonometry'', ''arithmetic'', ''equation'',
        ''formula'', ''theorem'', ''proof'', ''derivative'', ''integral'', ''matrix'', ''vector'',
        ''probability'', ''statistics'', ''graph'', ''function'', ''polynomial'', ''logarithm'',
        ''sine'', ''cosine'', ''tangent'', ''quadratic'', ''linear'', ''exponential'']),
     (''Science'',
       [''physics'', ''chemistry'', ''biology'', ''science'', ''atom'', ''molecule'', ''cell'',
        ''organism'', ''evolution'', ''genetics'', ''DNA'', ''photosynthesis'', ''respiration'',
        ''gravity'', ''force'', ''energy'', ''momentum'', ''wave'', ''light'', ''electricity'',
        ''magnetism'', ''chemical'', ''reaction'', ''element'', ''compound'', ''ecosystem'']),
     (''History'',
       [''history'', ''historical'', ''ancient'', ''medieval'', ''revolution'', ''war'', ''empire'',
        ''civilization'', ''culture'', ''democracy'', ''monarchy'', ''republic'', ''treaty'',
        ''constitution'', ''independence'', ''colonial'', ''renaissance'', ''reformation'']),
     (''Geography'',
       [''geography'', ''continent'', ''country'', ''capital'', ''mountain'', ''river'', ''ocean'',
        ''climate'', ''weather'', ''latitude'', ''longitude'', ''population'', ''map'', ''atlas'',
        ''desert'', ''forest'', ''plateau'', ''valley'', ''island'', ''peninsula'']),
     (''Literature'',
       [''literature'', ''poem'', ''poetry'', ''novel'', ''story'', ''author'', ''writer'', ''book'',
        ''character'', ''plot'', ''theme'', ''metaphor'', ''symbolism'', ''alliteration'',
        ''shakespeare'', ''prose'', ''verse'', ''narrative'', ''fiction'', ''non-fiction'']),
     (''Computer Science'',
       [''programming'', ''computer'', ''software'', ''hardware'', ''algorithm'', ''coding'', ''code'',
        ''python'', ''javascript'', ''java'', ''data structure'', ''database'', ''network'',
        ''internet'', ''website'', ''app'', ''application'', ''debugging'', ''variable'',
        ''function'', ''loop'', ''array'', ''object'', ''class'']),
     (''Language Arts'',
       [''grammar'', ''vocabulary'', ''spelling'', ''writing'', ''reading'', ''comprehension'',
        ''sentence'', ''paragraph'', ''essay'', ''verb'', ''noun'', ''adjective'', ''adverb'',
        ''punctuation'', ''comma'', ''period'', ''question mark'', ''exclamation'']),
     (''Social Studies'',
       [''government'', ''politics'', ''economics'', ''society'', ''community'', ''citizenship'',
        ''rights'', ''law'', ''justice'', ''democracy'', ''election'', ''vote'', ''tax'',
        ''economy'', ''market'', ''trade'', ''currency'', ''inflation''])]"

text \<open>
  \<open>str.lower()\<close> on the code points below 256: the letters A to Z and the upper-case
  letters of the Latin-1 block (all of 192 to 222 but the multiplication sign 215) move up
  by 32; every other character stays.
\<close>

definition char_lower :: "char \<Rightarrow> char" where
  "char_lower c =
     (let n = (of_char c :: int)
      in if (65 \<le> n \<and> n \<le> 90) \<or> (192 \<le> n \<and> n \<le> 222 \<and> n \<noteq> 215)
         then char_of (n + 32) else c)"

definition str_lower :: "string \<Rightarrow> string" where
  "str_lower s = map char_lower s"

text \<open>
  The class \<open>\w\<close> of \<open>re\<close> for \<open>str\<close> patterns on the code points below 256: digits,
  letters and the underscore of ASCII, and the Latin-1 characters that \<open>str.isalnum\<close>
  accepts. \<open>\b\<close> holds between two positions when exactly one side is such a character;
  the start and the end of the string count as not being one.
\<close>

definition is_word_char :: "char \<Rightarrow> bool" where
  "is_word_char c =
     (let n = (of_char c :: int)
      in (48 \<le> n \<and> n \<le> 57) \<or> (65 \<le> n \<and> n \<le> 90) \<or> n = 95 \<or> (97 \<le> n \<and> n \<le> 122)
         \<or> n = 170 \<or> n = 178 \<or> n = 179 \<or> n = 181 \<or> n = 185 \<or> n = 186
         \<or> (188 \<le> n \<and> n \<le> 190)
         \<or> (192 \<le> n \<and> n \<noteq> 215 \<and> n \<noteq> 247))"

fun word_at :: "char option \<Rightarrow> bool" where
  "word_at None = False"
| "word_at (Some c) = is_word_char c"

definition word_boundary :: "char option \<Rightarrow> string \<Rightarrow> bool" where
  "word_boundary prev rest =
     (word_at prev \<noteq> word_at (case rest of [] \<Rightarrow> None | c # _ \<Rightarrow> Some c))"

text \<open>
  The pattern of line 68 is \<open>\b\<close>, the escaped lower-cased keyword, \<open>\b\<close>. \<open>match_literal\<close>
  matches the keyword as a literal at the head of the string and returns what follows it;
  \<open>match_word\<close> is the whole pattern tried at one position, \<open>prev\<close> being the character
  before that position. Which of the three tests is made first does not change the outcome.
\<close>

fun match_literal :: "string \<Rightarrow> string \<Rightarrow> string option" where
  "match_literal [] s = Some s"
| "match_literal (k # ks) [] = None"
| "match_literal (k # ks) (c # cs) = (if k = c then match_literal ks cs else None)"

definition match_word :: "char option \<Rightarrow> string \<Rightarrow> string \<Rightarrow> string option" where
  "match_word prev kw s =
     (case match_literal kw s of
        None \<Rightarrow> None
      | Some rest \<Rightarrow>
          if kw \<noteq> [] \<and> word_boundary prev s \<and> word_boundary (Some (last kw)) rest
          then Some rest else None)"

text \<open>
  \<open>len(re.findall(pattern, question_lower))\<close>: the scan goes from left to right, resumes
  behind each match and moves on by one character where the pattern does not match. Every
  keyword of the table is non-empty, so a match is never empty.
\<close>

function findall_count :: "char option \<Rightarrow> string \<Rightarrow> string \<Rightarrow> nat" where
  "findall_count prev kw s =
     (case match_word prev kw s of
        Some rest \<Rightarrow> Suc (findall_count (Some (last kw)) kw rest)
      | None \<Rightarrow> (case s of [] \<Rightarrow> 0 | c # cs \<Rightarrow> findall_count (Some c) kw cs))"
  by pat_completeness auto

termination
proof (relation "measure (\<lambda>(prev, kw, s). length s)")
  show "wf (measure (\<lambda>(prev, kw, s). length s))"
    by simp
next
  fix prev :: "char option" and kw s rest :: string
  assume m: "match_word prev kw s = Some rest"
  have len: "length t = length k + length r" if "match_literal k t = Some r" for k t r
    using that by (induction k t rule: match_literal.induct) (auto split: if_splits)
  from m have "kw \<noteq> []" and "match_literal kw s = Some rest"
    by (auto simp: match_word_def split: option.splits if_splits)
  with len [of kw s rest] have "length rest < length s"
    by (cases kw) auto
  then show "((Some (last kw), kw, rest), (prev, kw, s)) \<in> measure (\<lambda>(prev, kw, s). length s)"
    by simp
next
  fix prev :: "char option" and kw s :: string and c cs
  assume "s = c # cs"
  then show "((Some c, kw, cs), (prev, kw, s)) \<in> measure (\<lambda>(prev, kw, s). length s)"
    by simp
qed

text \<open>
  The inner loop of lines 65 to 74 with its running \<open>score\<close>, and the outer loop of lines 64
  to 77: \<open>category_scores\<close> is the dictionary of the positive scores, kept as the list of
  its entries in insertion order.
\<close>

fun score_keywords :: "nat \<Rightarrow> string list \<Rightarrow> string \<Rightarrow> nat" where
  "score_keywords score [] question_lower = score"
| "score_keywords score (keyword # keywords) question_lower =
     (let matches = findall_count None (str_lower keyword) question_lower;
          score1 = score + matches;
          score2 = (if length keyword > 6 \<and> matches > 0 then score1 + 1 else score1)
      in score_keywords score2 keywords question_lower)"

fun score_categories :: "(string \<times> string list) list \<Rightarrow> string \<Rightarrow> (string \<times> nat) list" where
  "score_categories [] question_lower = []"
| "score_categories ((category, keywords) # rest) question_lower =
     (let score = score_keywords 0 keywords question_lower
      in if score > 0 then (category, score) # score_categories rest question_lower
         else score_categories rest question_lower)"

text \<open>
  \<open>max(category_scores.keys(), key=...)\<close> over a dictionary that is not empty: an entry
  replaces the best one so far only when its score is strictly larger.
\<close>

fun max_by_score :: "string \<times> nat \<Rightarrow> (string \<times> nat) list \<Rightarrow> string \<times> nat" where
  "max_by_score best [] = best"
| "max_by_score best (entry # entries) =
     (if snd entry > snd best then max_by_score entry entries else max_by_score best entries)"

text \<open>
  \<open>keyword.lower() in question_lower\<close> is the substring test of Python, and the loop of
  lines 90 to 92 returns at the first keyword longer than 6 characters that passes it.
\<close>

fun contains :: "string \<Rightarrow> string \<Rightarrow> bool" where
  "contains needle [] = (needle = [])"
| "contains needle (c # cs) = (match_literal needle (c # cs) \<noteq> None \<or> contains needle cs)"

fun strong_single_match :: "string list \<Rightarrow> string \<Rightarrow> bool" where
  "strong_single_match [] question_lower = False"
| "strong_single_match (keyword # keywords) question_lower =
     (if length keyword > 6 \<and> contains (str_lower keyword) question_lower then True
      else strong_single_match keywords question_lower)"

text \<open>
  \<open>None\<close> of the result type stands for Python's \<open>None\<close>. The lookup
  \<open>SUBJECT_CATEGORIES[best_category]\<close> cannot fail, since the best category is a key of the
  table.
\<close>

definition categorize_question :: "string \<Rightarrow> string option" where
  "categorize_question question =
     (if question = [] then None
      else let question_lower = str_lower question;
               category_scores = score_categories SUBJECT_CATEGORIES question_lower
           in case category_scores of
                [] \<Rightarrow> None
              | first # others \<Rightarrow>
                  (let (best_category, best_score) = max_by_score first others
                   in if best_score \<ge> 2 then Some best_category
                      else if best_score = 1
                      then (case map_of SUBJECT_CATEGORIES best_category of
                              None \<Rightarrow> None
                            | Some keywords \<Rightarrow>
                                if strong_single_match keywords question_lower
                                then Some best_category else None)
                      else None))"

subsection \<open>Notions used to state the classifier's properties\<close>

text \<open>
  The number of whole-word, case-insensitive occurrences of a keyword in a question, as the
  scoring loop counts them, and the score the loop gives a category's keyword list.
\<close>

definition keyword_matches :: "string \<Rightarrow> string \<Rightarrow> nat" where
  "keyword_matches keyword question =
     findall_count None (str_lower keyword) (str_lower question)"

definition total_matches :: "string list \<Rightarrow> string \<Rightarrow> nat" where
  "total_matches keywords question =
     sum_list (map (\<lambda>keyword. keyword_matches keyword question) keywords)"

definition keyword_score :: "string \<Rightarrow> string \<Rightarrow> nat" where
  "keyword_score question_lower keyword =
     (let matches = findall_count None (str_lower keyword) question_lower
      in matches + (if length keyword > 6 \<and> matches > 0 then 1 else 0))"

definition keywords_of :: "string \<Rightarrow> string list" where
  "keywords_of category =
     (case map_of SUBJECT_CATEGORIES category of Some keywords \<Rightarrow> keywords | None \<Rightarrow> [])"

definition category_score :: "string list \<Rightarrow> string \<Rightarrow> nat" where
  "category_score keywords question = score_keywords 0 keywords (str_lower question)"

text \<open>
  The whole-word occurrences of a keyword in the words of the specification: the positions
  of the lower-cased question at which the lower-cased keyword stands between two word
  boundaries, counted one by one. \<open>re.findall\<close> instead resumes its scan behind each match,
  and the two counts agree for a keyword no occurrence of which can begin inside another
  (\<open>no_self_overlap\<close>), which holds for every keyword of the table.
\<close>

fun count_occurrences :: "char option \<Rightarrow> string \<Rightarrow> string \<Rightarrow> nat" where
  "count_occurrences prev kw [] = (if match_word prev kw [] \<noteq> None then 1 else 0)"
| "count_occurrences prev kw (c # cs) =
     (if match_word prev kw (c # cs) \<noteq> None then 1 else 0) + count_occurrences (Some c) kw cs"

definition whole_word_occurrences :: "string \<Rightarrow> string \<Rightarrow> nat" where
  "whole_word_occurrences keyword question =
     count_occurrences None (str_lower keyword) (str_lower question)"

definition total_occurrences :: "string list \<Rightarrow> string \<Rightarrow> nat" where
  "total_occurrences keywords question =
     sum_list (map (\<lambda>keyword. whole_word_occurrences keyword question) keywords)"

fun inner_start_free :: "char \<Rightarrow> char \<Rightarrow> string \<Rightarrow> bool" where
  "inner_start_free k0 p [] = True"
| "inner_start_free k0 p (c # cs) =
     (\<not> (is_word_char p \<noteq> is_word_char c \<and> c = k0) \<and> inner_start_free k0 c cs)"

definition no_self_overlap :: "string \<Rightarrow> bool" where
  "no_self_overlap kw = (case kw of [] \<Rightarrow> True | k0 # ks \<Rightarrow> inner_start_free k0 k0 ks)"

text \<open>
  The top-scoring category of a question: the entry of the table with a positive score that
  no entry exceeds, the first such entry in table order (Python's \<open>max\<close> keeps the first
  maximum it meets).
\<close>

definition top_scoring :: "string \<Rightarrow> string \<Rightarrow> string list \<Rightarrow> nat \<Rightarrow> bool" where
  "top_scoring question category keywords n \<longleftrightarrow>
     (\<exists>before after.
        SUBJECT_CATEGORIES = before @ (category, keywords) # after
        \<and> n = category_score keywords question \<and> 0 < n
        \<and> (\<forall>(c, ks) \<in> set before. category_score ks question < n)
        \<and> (\<forall>(c, ks) \<in> set after. category_score ks question \<le> n))"

text \<open>
  The confidence gate in the words of the specification: the score is at least 2, or it is
  exactly 1 and one of the category's keywords that matched the question as a whole word is
  longer than 6 characters.
\<close>

fun matched_long_keyword :: "string list \<Rightarrow> string \<Rightarrow> bool" where
  "matched_long_keyword [] question = False"
| "matched_long_keyword (keyword # keywords) question =
     ((length keyword > 6 \<and> keyword_matches keyword question > 0)
      \<or> matched_long_keyword keywords question)"

definition spec_confidence_gate :: "string list \<Rightarrow> string \<Rightarrow> bool" where
  "spec_confidence_gate keywords question =
     (category_score keywords question \<ge> 2
      \<or> (category_score keywords question = 1 \<and> matched_long_keyword keywords question))"

section \<open>Persistence layer (database.py)\<close>

text \<open>
  A \<open>datetime\<close> is the record of its fields; naive datetimes compare field by field, which
  is the lexicographic order of \<open>dt_key\<close>.
\<close>

record datetime =
  year :: nat
  month :: nat
  day :: nat
  hour :: nat
  minute :: nat
  second :: nat
  microsecond :: nat

definition dt_key :: "datetime \<Rightarrow> nat \<times> nat \<times> nat \<times> nat \<times> nat \<times> nat \<times> nat" where
  "dt_key t = (year t, month t, day t, hour t, minute t, second t, microsecond t)"

record study_session =
  ss_id :: nat
  ss_session_name :: string
  ss_created_at :: datetime
  ss_updated_at :: datetime

record chat_exchange =
  ce_id :: nat
  ce_session_id :: nat
  ce_question :: string
  ce_answer :: string
  ce_subject_category :: "string option"
  ce_rating :: "int option"
  ce_feedback :: "string option"
  ce_timestamp :: datetime

text \<open>
  The stored state: the rows of the two tables in insertion order and the two primary-key
  sequences. A key is never handed out twice, also after a deletion.
\<close>

record database =
  sessions :: "study_session list"
  exchanges :: "chat_exchange list"
  next_session_id :: nat
  next_exchange_id :: nat

text \<open>
  The state after \<open>init_database()\<close> has created the two tables in an empty database:
  no rows, and the keys start at 1.
\<close>

definition init_database :: database where
  "init_database = \<lparr>sessions = [], exchanges = [], next_session_id = 1, next_exchange_id = 1\<rparr>"

text \<open>
  What the database (PostgreSQL, reached through psycopg2, as the \<open>sslmode\<close> connect
  argument tells) refuses, and the exception SQLAlchemy raises for it. None of the functions
  but \<open>delete_study_session\<close> catches an exception, so it leaves the function and nothing
  of the call is stored.
  \<^item> A string holding the character NUL cannot be sent as a literal: \<open>StatementError\<close>.
  \<^item> An \<open>Integer\<close> column holds the 32-bit signed integers, and a key sequence ends at the
    largest of them: \<open>DataError\<close> beyond that.
  \<^item> A \<open>String(n)\<close> column stores at most \<open>n\<close> characters. A longer string is cut to \<open>n\<close>
    characters when all that is cut off are spaces, and refused with \<open>DataError\<close> otherwise.
  \<^item> A foreign key without its row: \<open>IntegrityError\<close>.
\<close>

datatype db_error = IntegrityError | DataError | StatementError

definition text_ok :: "string \<Rightarrow> bool" where
  "text_ok s = (CHR 0x00 \<notin> set s)"

definition optional_text_ok :: "string option \<Rightarrow> bool" where
  "optional_text_ok s = (case s of None \<Rightarrow> True | Some v \<Rightarrow> text_ok v)"

definition integer_ok :: "int \<Rightarrow> bool" where
  "integer_ok i = (- 2147483648 \<le> i \<and> i \<le> 2147483647)"

definition optional_integer_ok :: "int option \<Rightarrow> bool" where
  "optional_integer_ok i = (case i of None \<Rightarrow> True | Some v \<Rightarrow> integer_ok v)"

definition max_key :: nat where
  "max_key = 2147483647"

definition varchar :: "nat \<Rightarrow> string \<Rightarrow> string option" where
  "varchar n s =
     (if length s \<le> n then Some s
      else if list_all (\<lambda>c. c = CHR '' '') (drop n s) then Some (take n s)
      else None)"

definition optional_varchar :: "nat \<Rightarrow> string option \<Rightarrow> string option option" where
  "optional_varchar n s =
     (case s of None \<Rightarrow> Some None | Some v \<Rightarrow> map_option Some (varchar n v))"

text \<open>
  The column defaults \<open>datetime.utcnow\<close> are calls of the wall clock made when the row is
  inserted; the readings are inputs of the model. A session reads the clock twice, once for
  each of its two timestamp columns. The result is the new key, or the exception that
  leaves the function.
\<close>

definition create_study_session ::
  "database \<Rightarrow> datetime \<Rightarrow> datetime \<Rightarrow> string \<Rightarrow> (db_error + nat) \<times> database" where
  "create_study_session db now_created now_updated session_name =
     (if \<not> text_ok session_name then (Inl StatementError, db)
      else case varchar 255 session_name of
        None \<Rightarrow> (Inl DataError, db)
      | Some stored_name \<Rightarrow>
          if next_session_id db > max_key then (Inl DataError, db)
          else
            let session = \<lparr>ss_id = next_session_id db, ss_session_name = stored_name,
                            ss_created_at = now_created, ss_updated_at = now_updated\<rparr>
            in (Inr (ss_id session),
                db\<lparr>sessions := sessions db @ [session],
                   next_session_id := Suc (next_session_id db)\<rparr>))"

text \<open>
  \<open>session_id\<close> is a foreign key into the sessions table. The database draws the key of the
  new row from the sequence before it checks the foreign key at the end of the statement, and
  a sequence does not take a value back: an insert refused for its foreign key uses up a key.
  The other refusals come before the row is formed and leave the sequence alone.
\<close>

definition save_chat_exchange ::
  "database \<Rightarrow> datetime \<Rightarrow> nat \<Rightarrow> string \<Rightarrow> string \<Rightarrow> string option
     \<Rightarrow> (db_error + nat) \<times> database" where
  "save_chat_exchange db now session_id question answer subject_category =
     (if \<not> (text_ok question \<and> text_ok answer \<and> optional_text_ok subject_category)
      then (Inl StatementError, db)
      else if session_id > max_key then (Inl DataError, db)
      else case optional_varchar 100 subject_category of
        None \<Rightarrow> (Inl DataError, db)
      | Some stored_category \<Rightarrow>
          if next_exchange_id db > max_key then (Inl DataError, db)
          else if session_id \<notin> set (map ss_id (sessions db))
          then (Inl IntegrityError, db\<lparr>next_exchange_id := Suc (next_exchange_id db)\<rparr>)
          else
            let exchange = \<lparr>ce_id = next_exchange_id db, ce_session_id = session_id,
                             ce_question = question, ce_answer = answer,
                             ce_subject_category = stored_category,
                             ce_rating = None, ce_feedback = None, ce_timestamp = now\<rparr>
            in (Inr (ce_id exchange),
                db\<lparr>exchanges := exchanges db @ [exchange],
                   next_exchange_id := Suc (next_exchange_id db)\<rparr>))"

record session_row =
  sr_id :: nat
  sr_name :: string
  sr_created_at :: datetime
  sr_updated_at :: datetime

text \<open>
  \<open>ORDER BY updated_at DESC\<close>. SQL leaves the order of rows with equal keys open; the
  model lists them in reverse insertion order there.
\<close>

definition get_study_sessions :: "database \<Rightarrow> session_row list" where
  "get_study_sessions db =
     map (\<lambda>s. \<lparr>sr_id = ss_id s, sr_name = ss_session_name s,
                sr_created_at = ss_created_at s, sr_updated_at = ss_updated_at s\<rparr>)
         (rev (sort_key (\<lambda>s. dt_key (ss_updated_at s)) (sessions db)))"

text \<open>\<open>str\<close> of a natural number, and the zero padding of the \<open>strftime\<close> fields.\<close>

definition digit_char :: "nat \<Rightarrow> char" where
  "digit_char d = ''0123456789'' ! d"

function str_nat :: "nat \<Rightarrow> string" where
  "str_nat n = (if n < 10 then [digit_char n] else str_nat (n div 10) @ [digit_char (n mod 10)])"
  by pat_completeness auto
termination
  by (relation "measure id") auto

definition zero_pad :: "nat \<Rightarrow> nat \<Rightarrow> string" where
  "zero_pad width n = replicate (width - length (str_nat n)) (CHR ''0'') @ str_nat n"

text \<open>\<open>strftime("%Y-%m-%d %H:%M:%S")\<close>, for years from 1000 on.\<close>

definition strftime :: "datetime \<Rightarrow> string" where
  "strftime t =
     zero_pad 4 (year t) @ ''-'' @ zero_pad 2 (month t) @ ''-'' @ zero_pad 2 (day t) @ '' ''
     @ zero_pad 2 (hour t) @ '':'' @ zero_pad 2 (minute t) @ '':'' @ zero_pad 2 (second t)"

record exchange_row =
  er_id :: nat
  er_question :: string
  er_answer :: string
  er_subject_category :: "string option"
  er_rating :: "int option"
  er_feedback :: "string option"
  er_timestamp :: string

definition exchange_to_row :: "chat_exchange \<Rightarrow> exchange_row" where
  "exchange_to_row e =
     \<lparr>er_id = ce_id e, er_question = ce_question e, er_answer = ce_answer e,
      er_subject_category = ce_subject_category e, er_rating = ce_rating e,
      er_feedback = ce_feedback e, er_timestamp = strftime (ce_timestamp e)\<rparr>"

text \<open>
  The query of \<open>get_chat_history\<close>: the exchanges of the session, \<open>ORDER BY timestamp ASC\<close>.
  SQL leaves the order of rows with equal timestamps open. \<open>history_query_result\<close> says
  which answers the database may give; \<open>history_query\<close> is the answer the model computes,
  with rows of equal timestamp in insertion order.
\<close>

definition history_query_result :: "database \<Rightarrow> nat \<Rightarrow> chat_exchange list \<Rightarrow> bool" where
  "history_query_result db session_id rows \<longleftrightarrow>
     mset rows = mset (filter (\<lambda>e. ce_session_id e = session_id) (exchanges db))
     \<and> sorted (map (\<lambda>e. dt_key (ce_timestamp e)) rows)"

definition history_query :: "database \<Rightarrow> nat \<Rightarrow> chat_exchange list" where
  "history_query db session_id =
     sort_key (\<lambda>e. dt_key (ce_timestamp e))
       (filter (\<lambda>e. ce_session_id e = session_id) (exchanges db))"

definition get_chat_history :: "database \<Rightarrow> nat \<Rightarrow> exchange_row list" where
  "get_chat_history db session_id = map exchange_to_row (history_query db session_id)"

text \<open>
  \<open>if feedback:\<close> holds for a string that is present and not empty. The query takes the
  first row with the given key (\<open>.first()\<close>) and the update writes that row.
\<close>

definition truthy_str :: "string option \<Rightarrow> bool" where
  "truthy_str s = (case s of None \<Rightarrow> False | Some v \<Rightarrow> v \<noteq> [])"

definition set_rating :: "int option \<Rightarrow> string option \<Rightarrow> chat_exchange \<Rightarrow> chat_exchange" where
  "set_rating rating feedback exchange =
     (let rated = exchange\<lparr>ce_rating := rating\<rparr>
      in if truthy_str feedback then rated\<lparr>ce_feedback := feedback\<rparr> else rated)"

fun update_first :: "nat \<Rightarrow> (chat_exchange \<Rightarrow> chat_exchange) \<Rightarrow> chat_exchange list \<Rightarrow> chat_exchange list" where
  "update_first exchange_id f [] = []"
| "update_first exchange_id f (e # es) =
     (if ce_id e = exchange_id then f e # es else e # update_first exchange_id f es)"

text \<open>
  The commit sends the update. A feedback that is written and holds NUL, or a rating outside
  the \<open>Integer\<close> column, makes it raise; the function has no \<open>except\<close>, so the exception
  leaves it and the row stays as it was.
\<close>

definition update_exchange_rating ::
  "database \<Rightarrow> nat \<Rightarrow> int option \<Rightarrow> string option \<Rightarrow> (db_error + bool) \<times> database" where
  "update_exchange_rating db exchange_id rating feedback =
     (case find (\<lambda>e. ce_id e = exchange_id) (exchanges db) of
        Some exchange \<Rightarrow>
          if truthy_str feedback \<and> \<not> optional_text_ok feedback then (Inl StatementError, db)
          else if \<not> optional_integer_ok rating then (Inl DataError, db)
          else (Inr True,
                db\<lparr>exchanges :=
                     update_first exchange_id (set_rating rating feedback) (exchanges db)\<rparr>)
      | None \<Rightarrow> (Inr False, db))"

text \<open>
  \<open>delete_study_session\<close> runs two bulk deletes and a commit inside one transaction. Each
  of the three storage calls may raise; which one does, if any, is an input of the model.
  The transaction holds the committed state and the working state: a commit makes the
  working state the stored one, a rollback discards it.
\<close>

datatype storage_call = DeleteExchanges | DeleteSession | Commit

record transaction =
  committed :: database
  working :: database

definition begin_transaction :: "database \<Rightarrow> transaction" where
  "begin_transaction db = \<lparr>committed = db, working = db\<rparr>"

definition commit :: "transaction \<Rightarrow> database" where
  "commit txn = working txn"

definition rollback :: "transaction \<Rightarrow> database" where
  "rollback txn = committed txn"

definition delete_exchanges_of :: "nat \<Rightarrow> transaction \<Rightarrow> transaction" where
  "delete_exchanges_of session_id txn =
     txn\<lparr>working := (working txn)
            \<lparr>exchanges := filter (\<lambda>e. ce_session_id e \<noteq> session_id) (exchanges (working txn))\<rparr>\<rparr>"

definition delete_session_row :: "nat \<Rightarrow> transaction \<Rightarrow> transaction" where
  "delete_session_row session_id txn =
     txn\<lparr>working := (working txn)
            \<lparr>sessions := filter (\<lambda>s. ss_id s \<noteq> session_id) (sessions (working txn))\<rparr>\<rparr>"

definition delete_study_session ::
  "database \<Rightarrow> storage_call option \<Rightarrow> nat \<Rightarrow> bool \<times> database" where
  "delete_study_session db raises session_id =
     (let txn = begin_transaction db
      in if raises = Some DeleteExchanges then (False, rollback txn)
         else let txn = delete_exchanges_of session_id txn
              in if raises = Some DeleteSession then (False, rollback txn)
                 else let txn = delete_session_row session_id txn
                      in if raises = Some Commit then (False, rollback txn)
                         else (True, commit txn))"

text \<open>
  \<open>get_session_stats\<close>. The database's \<open>AVG\<close> skips \<open>NULL\<close> ratings and is \<open>NULL\<close> when
  none is left; it is modelled as the exact rational mean. \<open>round(avg_rating, 2)\<close> on the
  \<open>Decimal\<close> the driver returns rounds half to even. \<open>if avg_rating\<close> is false for \<open>None\<close>
  and for a zero \<open>Decimal\<close> alike.
\<close>

record session_stats =
  total_sessions :: nat
  total_exchanges :: nat
  average_rating :: "rat option"

definition non_null_ratings :: "database \<Rightarrow> int list" where
  "non_null_ratings db = List.map_filter ce_rating (exchanges db)"

definition avg :: "int list \<Rightarrow> rat option" where
  "avg rs = (if rs = [] then None else Some (of_int (sum_list rs) / of_int (int (length rs))))"

definition round_half_even :: "rat \<Rightarrow> int" where
  "round_half_even x =
     (let f = \<lfloor>x\<rfloor>; d = x - of_int f
      in if d < 1 / 2 then f
         else if d > 1 / 2 then f + 1
         else if even f then f else f + 1)"

definition round2 :: "rat \<Rightarrow> rat" where
  "round2 x = of_int (round_half_even (x * 100)) / 100"

definition get_session_stats :: "database \<Rightarrow> session_stats" where
  "get_session_stats db =
     (let avg_rating = avg (non_null_ratings db)
      in \<lparr>total_sessions = length (sessions db),
          total_exchanges = length (exchanges db),
          average_rating =
            (case avg_rating of
               None \<Rightarrow> None
             | Some a \<Rightarrow> if a \<noteq> 0 then Some (round2 a) else None)\<rparr>)"

text \<open>
  A caller that records a sequence of exchanges, one \<open>save_chat_exchange\<close> per request,
  as the application does once per submitted question. \<open>session_requests_accepted\<close> says
  that every save for the given session returned a key, which is what "recorded" means; a
  stored subject label is the given one, cut to the width of its column.
\<close>

record save_request =
  rq_session_id :: nat
  rq_question :: string
  rq_answer :: string
  rq_subject_category :: "string option"
  rq_now :: datetime

fun record_exchanges :: "database \<Rightarrow> save_request list \<Rightarrow> database" where
  "record_exchanges db [] = db"
| "record_exchanges db (r # rs) =
     record_exchanges
       (snd (save_chat_exchange db (rq_now r) (rq_session_id r) (rq_question r) (rq_answer r)
               (rq_subject_category r))) rs"

fun session_requests_accepted :: "database \<Rightarrow> nat \<Rightarrow> save_request list \<Rightarrow> bool" where
  "session_requests_accepted db sid [] = True"
| "session_requests_accepted db sid (r # rs) =
     (case save_chat_exchange db (rq_now r) (rq_session_id r) (rq_question r) (rq_answer r)
             (rq_subject_category r) of
        (Inl err, db') \<Rightarrow> rq_session_id r \<noteq> sid \<and> session_requests_accepted db' sid rs
      | (Inr key, db') \<Rightarrow> session_requests_accepted db' sid rs)"

definition exchange_content :: "chat_exchange \<Rightarrow> string \<times> string \<times> string option \<times> datetime" where
  "exchange_content e = (ce_question e, ce_answer e, ce_subject_category e, ce_timestamp e)"

definition request_content :: "save_request \<Rightarrow> string \<times> string \<times> string option \<times> datetime" where
  "request_content r =
     (rq_question r, rq_answer r, map_option (take 100) (rq_subject_category r), rq_now r)"

definition request_row :: "save_request \<Rightarrow> string \<times> string \<times> string option \<times> string" where
  "request_row r =
     (rq_question r, rq_answer r, map_option (take 100) (rq_subject_category r),
      strftime (rq_now r))"

definition row_content :: "exchange_row \<Rightarrow> string \<times> string \<times> string option \<times> string" where
  "row_content row = (er_question row, er_answer row, er_subject_category row, er_timestamp row)"

text \<open>
  The foreign key of the schema: every exchange belongs to a stored session.
\<close>

definition foreign_key_ok :: "database \<Rightarrow> bool" where
  "foreign_key_ok db \<longleftrightarrow>
     (\<forall>e \<in> set (exchanges db). ce_session_id e \<in> set (map ss_id (sessions db)))"

section \<open>Export of a session (app.py)\<close>

record session_data =
  sd_name :: string
  sd_created_at :: datetime
  sd_history :: "exchange_row list"

text \<open>
  \<open>str\<close> of a \<open>datetime\<close>, as the f-string of the header formats \<open>created_at\<close>: the
  microseconds are printed only when they are not zero.
\<close>

definition str_datetime :: "datetime \<Rightarrow> string" where
  "str_datetime t =
     zero_pad 4 (year t) @ ''-'' @ zero_pad 2 (month t) @ ''-'' @ zero_pad 2 (day t) @ '' ''
     @ zero_pad 2 (hour t) @ '':'' @ zero_pad 2 (minute t) @ '':'' @ zero_pad 2 (second t)
     @ (if microsecond t = 0 then [] else ''.'' @ zero_pad 6 (microsecond t))"

text \<open>
  The two rating glyphs, U+1F44D and U+1F44E, lie outside the range of \<^typ>\<open>char\<close>; they
  stand here as their UTF-8 bytes.
\<close>

definition thumbs_up :: string where
  "thumbs_up = [CHR 0xF0, CHR 0x9F, CHR 0x91, CHR 0x8D]"

definition thumbs_down :: string where
  "thumbs_down = [CHR 0xF0, CHR 0x9F, CHR 0x91, CHR 0x8E]"

definition write_header :: "session_data \<Rightarrow> string" where
  "write_header session =
     ''Study Session: '' @ sd_name session @ ''\<newline>''
     @ ''Created: '' @ str_datetime (sd_created_at session) @ ''\<newline>''
     @ replicate 50 (CHR ''='') @ ''\<newline>\<newline>''"

text \<open>One pass of the loop body: what it appends to the output for exchange number \<open>i\<close>.\<close>

definition write_exchange :: "nat \<Rightarrow> exchange_row \<Rightarrow> string" where
  "write_exchange i exchange =
     ''Question '' @ str_nat i @ '':\<newline>'' @ er_question exchange @ ''\<newline>\<newline>''
     @ ''Answer '' @ str_nat i @ '':\<newline>'' @ er_answer exchange @ ''\<newline>\<newline>''
     @ (case er_subject_category exchange of
          Some category \<Rightarrow> if category \<noteq> [] then ''Subject: '' @ category @ ''\<newline>'' else []
        | None \<Rightarrow> [])
     @ (case er_rating exchange of
          Some rating \<Rightarrow>
            if rating \<noteq> 0
            then ''Rating: '' @ (if rating > 0 then thumbs_up else thumbs_down) @ ''\<newline>''
            else []
        | None \<Rightarrow> [])
     @ (case er_feedback exchange of
          Some feedback \<Rightarrow> if feedback \<noteq> [] then ''Feedback: '' @ feedback @ ''\<newline>'' else []
        | None \<Rightarrow> [])
     @ ''Time: '' @ er_timestamp exchange @ ''\<newline>''
     @ replicate 30 (CHR ''-'') @ ''\<newline>\<newline>''"

fun write_exchanges :: "string \<Rightarrow> nat \<Rightarrow> exchange_row list \<Rightarrow> string" where
  "write_exchanges output i [] = output"
| "write_exchanges output i (exchange # rest) =
     write_exchanges (output @ write_exchange i exchange) (Suc i) rest"

definition export_session_notes :: "session_data \<Rightarrow> string" where
  "export_session_notes session =
     write_exchanges (write_header session) 1 (sd_history session)"

subsection \<open>Notions used to state the properties of the export\<close>

text \<open>
  The lines of a document (\<open>split('\n')\<close>), the line that opens the block of exchange
  number \<open>i\<close>, and the test for a line of this form: "Question ", a decimal numeral without
  leading zeros, and a colon. A text is plain when none of its lines is of this form.
\<close>

fun split_lines :: "string \<Rightarrow> string list" where
  "split_lines [] = [[]]"
| "split_lines (c # cs) =
     (if c = CHR ''\<newline>'' then [] # split_lines cs
      else (case split_lines cs of [] \<Rightarrow> [[c]] | l # ls \<Rightarrow> (c # l) # ls))"

definition question_line :: "nat \<Rightarrow> string" where
  "question_line i = ''Question '' @ str_nat i @ '':''"

definition is_decimal :: "string \<Rightarrow> bool" where
  "is_decimal ds =
     (ds \<noteq> [] \<and> list_all (\<lambda>c. c \<in> set ''0123456789'') ds
      \<and> (hd ds = CHR ''0'' \<longrightarrow> length ds = 1))"

definition is_heading :: "string \<Rightarrow> bool" where
  "is_heading l =
     (case match_literal ''Question '' l of
        None \<Rightarrow> False
      | Some r \<Rightarrow> r \<noteq> [] \<and> last r = CHR '':'' \<and> is_decimal (butlast r))"

definition headings :: "string \<Rightarrow> string list" where
  "headings document = filter is_heading (split_lines document)"

text \<open>
  A list of texts written one after the other, each closed by a newline; the texts of the
  header and of the block of an exchange, in the order in which they are written.
\<close>

definition text_lines :: "string list \<Rightarrow> string" where
  "text_lines ts = concat (map (\<lambda>t. t @ ''\<newline>'') ts)"

definition header_texts :: "session_data \<Rightarrow> string list" where
  "header_texts session =
     [''Study Session: '' @ sd_name session,
      ''Created: '' @ str_datetime (sd_created_at session),
      replicate 50 (CHR ''=''), [] ]"

definition block_texts :: "nat \<Rightarrow> exchange_row \<Rightarrow> string list" where
  "block_texts i exchange =
     [question_line i, er_question exchange, [],
      ''Answer '' @ str_nat i @ '':'', er_answer exchange, [] ]
     @ (case er_subject_category exchange of
          Some category \<Rightarrow> if category \<noteq> [] then [''Subject: '' @ category] else []
        | None \<Rightarrow> [])
     @ (case er_rating exchange of
          Some rating \<Rightarrow>
            if rating \<noteq> 0
            then [''Rating: '' @ (if rating > 0 then thumbs_up else thumbs_down)]
            else []
        | None \<Rightarrow> [])
     @ (case er_feedback exchange of
          Some feedback \<Rightarrow> if feedback \<noteq> [] then [''Feedback: '' @ feedback] else []
        | None \<Rightarrow> [])
     @ [''Time: '' @ er_timestamp exchange, replicate 30 (CHR ''-''), [] ]"

definition plain_text :: "string \<Rightarrow> bool" where
  "plain_text t = (headings t = [])"

definition plain_optional :: "string option \<Rightarrow> bool" where
  "plain_optional t = (case t of None \<Rightarrow> True | Some v \<Rightarrow> plain_text v)"

definition plain_row :: "exchange_row \<Rightarrow> bool" where
  "plain_row e =
     (plain_text (er_question e) \<and> plain_text (er_answer e)
      \<and> plain_optional (er_subject_category e) \<and> plain_optional (er_feedback e)
      \<and> plain_text (er_timestamp e))"

definition plain_session :: "session_data \<Rightarrow> bool" where
  "plain_session session =
     (plain_text (sd_name session) \<and> list_all plain_row (sd_history session))"

section \<open>Example data\<close>

definition at_second :: "nat \<Rightarrow> datetime" where
  "at_second s =
     \<lparr>year = 2024, month = 1, day = 15, hour = 10, minute = 0, second = s, microsecond = 0\<rparr>"

definition two_sessions :: database where
  "two_sessions =
     snd (create_study_session
            (snd (create_study_session init_database (at_second 0) (at_second 0) ''S1''))
            (at_second 1) (at_second 1) ''S2'')"

definition request :: "nat \<Rightarrow> string \<Rightarrow> nat \<Rightarrow> save_request" where
  "request sid q s =
     \<lparr>rq_session_id = sid, rq_question = q, rq_answer = ''answer'',
      rq_subject_category = None, rq_now = at_second s\<rparr>"

text \<open>
  Three exchanges of session 1 with an exchange of session 2 and a refused insert (there is
  no session 7) in between, the clock advancing.
\<close>

definition interleaved_requests :: "save_request list" where
  "interleaved_requests =
     [request 1 ''E1'' 2, request 2 ''X'' 3, request 1 ''E2'' 4, request 7 ''Y'' 5,
      request 1 ''E3'' 6]"

text \<open>Three exchanges of session 1, the wall clock set back after the first.\<close>

definition clock_set_back_requests :: "save_request list" where
  "clock_set_back_requests = [request 1 ''E1'' 5, request 1 ''E2'' 3, request 1 ''E3'' 4]"

text \<open>Two exchanges of session 1 that were stored with their readings out of order.\<close>

definition late_first_requests :: "save_request list" where
  "late_first_requests = [request 1 ''late'' 9, request 1 ''early'' 7]"

definition stored_exchange :: "nat \<Rightarrow> nat \<Rightarrow> string \<Rightarrow> nat \<Rightarrow> chat_exchange" where
  "stored_exchange i sid q s =
     \<lparr>ce_id = i, ce_session_id = sid, ce_question = q, ce_answer = ''answer'',
      ce_subject_category = None, ce_rating = None, ce_feedback = None,
      ce_timestamp = at_second s\<rparr>"

definition stored_example :: database where
  "stored_example = record_exchanges two_sessions interleaved_requests"


definition demo_row :: "string \<Rightarrow> string \<Rightarrow> string option \<Rightarrow> exchange_row" where
  "demo_row q a category =
     \<lparr>er_id = 1, er_question = q, er_answer = a, er_subject_category = category,
      er_rating = None, er_feedback = None, er_timestamp = ''2024-01-15 10:00:02''\<rparr>"

definition demo_session_data :: session_data where
  "demo_session_data =
     \<lparr>sd_name = ''S1'', sd_created_at = at_second 0,
      sd_history = [demo_row ''Q1'' ''A1'' (Some ''Science''), demo_row ''Q2'' ''A2'' None]\<rparr>"

text \<open>
  A session with one exchange whose question holds a line "Question 2:", and a session
  without exchanges whose name holds a line "Question 1:".
\<close>

definition quoting_session_data :: session_data where
  "quoting_session_data =
     \<lparr>sd_name = ''S1'', sd_created_at = at_second 0,
      sd_history = [demo_row ''See\<newline>Question 2:\<newline>above'' ''A1'' None]\<rparr>"

definition quoting_name_session_data :: session_data where
  "quoting_name_session_data =
     \<lparr>sd_name = ''Notes\<newline>Question 1:'', sd_created_at = at_second 0, sd_history = []\<rparr>"

declare findall_count.simps [simp del]
declare str_nat.simps [simp del]

section \<open>Classifier: helper lemmas\<close>

lemma match_literal_iff: "match_literal k s = Some r \<longleftrightarrow> s = k @ r"
  by (induction k s rule: match_literal.induct) auto

lemma match_literal_prefix: "match_literal k s \<noteq> None \<longleftrightarrow> prefix k s"
proof -
  have "match_literal k s \<noteq> None \<longleftrightarrow> (\<exists>r. match_literal k s = Some r)"
    by auto
  then show ?thesis
    by (simp add: match_literal_iff prefix_def)
qed

lemma contains_sublist: "contains needle hay \<longleftrightarrow> sublist needle hay"
proof (induction hay)
  case Nil
  then show ?case by simp
next
  case (Cons c cs)
  then show ?case
    by (simp only: contains.simps match_literal_prefix sublist_Cons_right)
qed

lemma strong_single_match_iff:
  "strong_single_match kws ql \<longleftrightarrow>
     (\<exists>kw \<in> set kws. length kw > 6 \<and> sublist (str_lower kw) ql)"
  by (induction kws) (auto simp: contains_sublist)

lemma findall_count_empty: "findall_count prev kw [] = 0"
  by (simp add: findall_count.simps [of prev kw "[]"] match_word_def split: option.splits)
     (auto simp: match_literal_iff)

lemma score_keywords_sum:
  "score_keywords score kws ql = score + sum_list (map (keyword_score ql) kws)"
  by (induction kws arbitrary: score) (simp_all add: keyword_score_def Let_def)

lemma score_keywords_empty: "score_keywords 0 kws [] = 0"
  by (simp add: score_keywords_sum keyword_score_def findall_count_empty)

lemma score_categories_empty: "score_categories table [] = []"
  by (induction table) (auto simp: score_keywords_empty)

lemma score_categories_filter:
  "score_categories table ql =
     filter (\<lambda>entry. 0 < snd entry) (map (\<lambda>(c, ks). (c, score_keywords 0 ks ql)) table)"
  by (induction table) (auto simp: Let_def)

lemma max_by_score_split:
  "\<exists>pre post. best # entries = pre @ max_by_score best entries # post
      \<and> (\<forall>e \<in> set pre. snd e < snd (max_by_score best entries))
      \<and> (\<forall>e \<in> set post. snd e \<le> snd (max_by_score best entries))"
proof (induction entries arbitrary: best)
  case Nil
  have "[best] = [] @ max_by_score best [] # []"
    by simp
  then show ?case
    by fastforce
next
  case (Cons e entries)
  show ?case
  proof (cases "snd e > snd best")
    case True
    define m where "m = max_by_score e entries"
    from True have step: "max_by_score best (e # entries) = m"
      by (simp add: m_def)
    from Cons.IH [of e] obtain pre post where
      s: "e # entries = pre @ m # post" "\<forall>x \<in> set pre. snd x < snd m" "\<forall>x \<in> set post. snd x \<le> snd m"
      unfolding m_def by blast
    from s have "snd e \<le> snd m"
      by (cases pre) (auto simp: less_imp_le)
    with True have "snd best < snd m"
      by simp
    with s have "best # e # entries = (best # pre) @ m # post"
      and "\<forall>x \<in> set (best # pre). snd x < snd m"
      by simp_all
    with s(3) show ?thesis
      unfolding step by blast
  next
    case False
    define m where "m = max_by_score best entries"
    from False have step: "max_by_score best (e # entries) = m"
      by (simp add: m_def)
    from Cons.IH [of best] obtain pre post where
      s: "best # entries = pre @ m # post" "\<forall>x \<in> set pre. snd x < snd m" "\<forall>x \<in> set post. snd x \<le> snd m"
      unfolding m_def by blast
    show ?thesis
    proof (cases pre)
      case Nil
      with s False have "best # e # entries = [] @ m # (e # entries)"
        and "\<forall>x \<in> set (e # entries). snd x \<le> snd m"
        by auto
      then show ?thesis
        unfolding step by fastforce
    next
      case (Cons p pre')
      with s have "snd best < snd m" and "entries = pre' @ m # post" and "p = best"
        by auto
      with s False Cons have "best # e # entries = (best # e # pre') @ m # post"
        and "\<forall>x \<in> set (best # e # pre'). snd x < snd m"
        by auto
      with s(3) show ?thesis
        unfolding step by blast
    qed
  qed
qed

lemma filter_map_split:
  "filter P (map f table) = pre @ x # post \<Longrightarrow>
   \<exists>before y after. table = before @ y # after \<and> f y = x \<and> P x
      \<and> filter P (map f before) = pre \<and> filter P (map f after) = post"
proof (induction table arbitrary: pre)
  case Nil
  then show ?case by simp
next
  case (Cons t table)
  show ?case
  proof (cases "P (f t)")
    case False
    with Cons.prems have "filter P (map f table) = pre @ x # post"
      by simp
    from Cons.IH [OF this] obtain before y after where
      "table = before @ y # after" "f y = x" "P x"
      "filter P (map f before) = pre" "filter P (map f after) = post"
      by blast
    with False show ?thesis
      by (intro exI [of _ "t # before"] exI [of _ y] exI [of _ after]) simp
  next
    case True
    show ?thesis
    proof (cases pre)
      case Nil
      with True Cons.prems show ?thesis
        by (intro exI [of _ "[]"] exI [of _ t] exI [of _ table]) simp
    next
      case (Cons p pre')
      with True Cons.prems have "p = f t" and "filter P (map f table) = pre' @ x # post"
        by simp_all
      from Cons.IH [OF this(2)] obtain before y after where
        "table = before @ y # after" "f y = x" "P x"
        "filter P (map f before) = pre'" "filter P (map f after) = post"
        by blast
      with True Cons \<open>p = f t\<close> show ?thesis
        by (intro exI [of _ "t # before"] exI [of _ y] exI [of _ after]) simp
    qed
  qed
qed


lemma table_distinct: "distinct (map fst SUBJECT_CATEGORIES)"
  by (simp add: SUBJECT_CATEGORIES_def)

lemma top_scoring_of_max:
  assumes scores: "score_categories SUBJECT_CATEGORIES (str_lower q) = first # others"
    and best: "max_by_score first others = (c, n)"
  shows "\<exists>ks. top_scoring q c ks n"
proof -
  let ?f = "\<lambda>(c, ks). (c, score_keywords 0 ks (str_lower q))"
  let ?P = "\<lambda>entry :: string \<times> nat. 0 < snd entry"
  from max_by_score_split [of first others] best obtain pre post where
    s: "first # others = pre @ (c, n) # post"
       "\<forall>e \<in> set pre. snd e < n" "\<forall>e \<in> set post. snd e \<le> n"
    by auto
  from scores s(1) have "filter ?P (map ?f SUBJECT_CATEGORIES) = pre @ (c, n) # post"
    by (simp add: score_categories_filter)
  from filter_map_split [OF this] obtain before y after where
    t: "SUBJECT_CATEGORIES = before @ y # after" "?f y = (c, n)" "0 < n"
       "filter ?P (map ?f before) = pre" "filter ?P (map ?f after) = post"
    by auto
  obtain c' ks where y: "y = (c', ks)"
    by (cases y)
  with t(2) have cn: "c' = c" "n = category_score ks q"
    by (simp_all add: category_score_def)
  have "category_score ks' q < n" if "(d, ks') \<in> set before" for d ks'
  proof (cases "0 < category_score ks' q")
    case True
    with that have "(d, category_score ks' q) \<in> set (filter ?P (map ?f before))"
      by (force simp: category_score_def)
    with t(4) s(2) show ?thesis
      by auto
  next
    case False
    with t(3) show ?thesis
      by simp
  qed
  moreover have "category_score ks' q \<le> n" if "(d, ks') \<in> set after" for d ks'
  proof (cases "0 < category_score ks' q")
    case True
    with that have "(d, category_score ks' q) \<in> set (filter ?P (map ?f after))"
      by (force simp: category_score_def)
    with t(5) s(3) show ?thesis
      by auto
  next
    case False
    then show ?thesis
      by simp
  qed
  ultimately have "top_scoring q c ks n"
    unfolding top_scoring_def using t(1,3) y cn by blast
  then show ?thesis ..
qed

lemma top_scoring_unique:
  assumes "top_scoring q c ks n" and "top_scoring q c' ks' n'"
  shows "c' = c \<and> ks' = ks \<and> n' = n"
proof -
  from assms(1) obtain b a where
    1: "SUBJECT_CATEGORIES = b @ (c, ks) # a" "n = category_score ks q"
       "\<forall>(d, k) \<in> set b. category_score k q < n" "\<forall>(d, k) \<in> set a. category_score k q \<le> n"
    unfolding top_scoring_def by blast
  from assms(2) obtain b' a' where
    2: "SUBJECT_CATEGORIES = b' @ (c', ks') # a'" "n' = category_score ks' q"
       "\<forall>(d, k) \<in> set b'. category_score k q < n'" "\<forall>(d, k) \<in> set a'. category_score k q \<le> n'"
    unfolding top_scoring_def by blast
  from 1(1) 2(1) have "b @ (c, ks) # a = b' @ (c', ks') # a'"
    by simp
  then consider
      (same) "b = b'" "(c, ks) = (c', ks')"
    | (left) "(c, ks) \<in> set b'" "(c', ks') \<in> set a"
    | (right) "(c', ks') \<in> set b" "(c, ks) \<in> set a'"
    by (auto simp: append_eq_append_conv2 append_eq_Cons_conv Cons_eq_append_conv)
  then show ?thesis
  proof cases
    case same
    with 1(2) 2(2) show ?thesis by simp
  next
    case left
    with 1 2 have "n < n'" and "n' \<le> n" by auto
    then show ?thesis by simp
  next
    case right
    with 1 2 have "n' < n" and "n \<le> n'" by auto
    then show ?thesis by simp
  qed
qed

lemma top_scoring_scores:
  assumes "top_scoring q c ks n"
  shows "\<exists>first others. score_categories SUBJECT_CATEGORIES (str_lower q) = first # others"
proof -
  from assms obtain b a where "SUBJECT_CATEGORIES = b @ (c, ks) # a"
    and pos: "0 < score_keywords 0 ks (str_lower q)"
    unfolding top_scoring_def category_score_def by auto
  then have "set SUBJECT_CATEGORIES = set (b @ (c, ks) # a)"
    by simp
  then have "(c, ks) \<in> set SUBJECT_CATEGORIES"
    by simp
  with pos have "(c, score_keywords 0 ks (str_lower q))
      \<in> set (score_categories SUBJECT_CATEGORIES (str_lower q))"
    by (force simp: score_categories_filter)
  then show ?thesis
    by (cases "score_categories SUBJECT_CATEGORIES (str_lower q)") auto
qed

lemma top_scoring_keywords:
  assumes "top_scoring q c ks n"
  shows "map_of SUBJECT_CATEGORIES c = Some ks"
proof -
  from assms obtain b a where "SUBJECT_CATEGORIES = b @ (c, ks) # a"
    unfolding top_scoring_def by auto
  then have "set SUBJECT_CATEGORIES = set (b @ (c, ks) # a)"
    by simp
  then have "(c, ks) \<in> set SUBJECT_CATEGORIES"
    by simp
  with table_distinct show ?thesis
    by simp
qed

lemma categorize_question_unfold:
  "categorize_question q =
     (case score_categories SUBJECT_CATEGORIES (str_lower q) of
        [] \<Rightarrow> None
      | first # others \<Rightarrow>
          (let (c, n) = max_by_score first others
           in if n \<ge> 2 then Some c
              else if n = 1
              then (case map_of SUBJECT_CATEGORIES c of
                      None \<Rightarrow> None
                    | Some ks \<Rightarrow> if strong_single_match ks (str_lower q) then Some c else None)
              else None))"
proof (cases "q = []")
  case True
  then show ?thesis
    by (simp add: categorize_question_def str_lower_def score_categories_empty)
next
  case False
  then show ?thesis
    by (simp add: categorize_question_def Let_def split: list.split)
qed

lemma categorize_question_top:
  assumes "top_scoring q c ks n"
  shows "categorize_question q =
     (if n \<ge> 2 \<or> (n = 1 \<and> (\<exists>kw \<in> set ks. length kw > 6 \<and> sublist (str_lower kw) (str_lower q)))
      then Some c else None)"
proof -
  from top_scoring_scores [OF assms] obtain first others where
    scores: "score_categories SUBJECT_CATEGORIES (str_lower q) = first # others"
    by blast
  obtain c' n' where best: "max_by_score first others = (c', n')"
    by (cases "max_by_score first others")
  from top_scoring_of_max [OF scores best] obtain ks' where "top_scoring q c' ks' n'" ..
  from top_scoring_unique [OF assms this] have "c' = c" "n' = n"
    by simp_all
  with scores best top_scoring_keywords [OF assms] show ?thesis
    by (simp add: categorize_question_unfold strong_single_match_iff)
qed

lemma categorize_question_iff:
  "categorize_question q = Some c \<longleftrightarrow>
     (\<exists>ks n. top_scoring q c ks n
        \<and> (n \<ge> 2 \<or> (n = 1 \<and> (\<exists>kw \<in> set ks. length kw > 6
                                  \<and> sublist (str_lower kw) (str_lower q)))))"
proof
  assume r: "categorize_question q = Some c"
  then obtain first others where
    scores: "score_categories SUBJECT_CATEGORIES (str_lower q) = first # others"
    by (cases "score_categories SUBJECT_CATEGORIES (str_lower q)")
       (simp_all add: categorize_question_unfold)
  obtain c' n where best: "max_by_score first others = (c', n)"
    by (cases "max_by_score first others")
  from top_scoring_of_max [OF scores best] obtain ks where top: "top_scoring q c' ks n" ..
  from r categorize_question_top [OF top] have "c' = c"
    and "n \<ge> 2 \<or> (n = 1 \<and> (\<exists>kw \<in> set ks. length kw > 6 \<and> sublist (str_lower kw) (str_lower q)))"
    by (simp_all split: if_splits)
  with top show "\<exists>ks n. top_scoring q c ks n
        \<and> (n \<ge> 2 \<or> (n = 1 \<and> (\<exists>kw \<in> set ks. length kw > 6
                                  \<and> sublist (str_lower kw) (str_lower q))))"
    by blast
next
  assume "\<exists>ks n. top_scoring q c ks n
        \<and> (n \<ge> 2 \<or> (n = 1 \<and> (\<exists>kw \<in> set ks. length kw > 6
                                  \<and> sublist (str_lower kw) (str_lower q))))"
  then obtain ks n where "top_scoring q c ks n"
    and "n \<ge> 2 \<or> (n = 1 \<and> (\<exists>kw \<in> set ks. length kw > 6 \<and> sublist (str_lower kw) (str_lower q)))"
    by blast
  with categorize_question_top [of q c ks n] show "categorize_question q = Some c"
    by simp
qed

lemma keyword_score_ge: "keyword_matches kw q \<le> keyword_score (str_lower q) kw"
  by (simp add: keyword_score_def keyword_matches_def Let_def)

lemma keyword_score_zero: "keyword_matches kw q = 0 \<Longrightarrow> keyword_score (str_lower q) kw = 0"
  by (simp add: keyword_score_def keyword_matches_def Let_def)

lemma category_score_ge: "total_matches ks q \<le> category_score ks q"
  unfolding total_matches_def category_score_def score_keywords_sum
  by (induction ks) (simp_all add: keyword_score_ge add_mono)

lemma category_score_zero: "total_matches ks q = 0 \<Longrightarrow> category_score ks q = 0"
  unfolding total_matches_def category_score_def score_keywords_sum
  by (induction ks) (simp_all add: keyword_score_zero)

lemma match_word_start:
  "match_word (Some p) (k0 # ks) (c # cs) = Some r \<Longrightarrow> c = k0 \<and> is_word_char p \<noteq> is_word_char c"
  by (auto simp: match_word_def word_boundary_def split: option.splits if_splits)

lemma no_inner_occurrence:
  "inner_start_free k0 p xs \<Longrightarrow>
   count_occurrences (Some p) (k0 # ks) (xs @ rest)
     = count_occurrences (Some (last (p # xs))) (k0 # ks) rest"
proof (induction xs arbitrary: p)
  case Nil
  then show ?case by simp
next
  case (Cons c cs)
  from Cons.prems have free: "\<not> (is_word_char p \<noteq> is_word_char c \<and> c = k0)"
    and rest: "inner_start_free k0 c cs"
    by simp_all
  from free have "match_word (Some p) (k0 # ks) (c # cs @ rest) = None"
    using match_word_start [of p k0 ks c "cs @ rest"] by (cases "match_word (Some p) (k0 # ks) (c # cs @ rest)") auto
  with Cons.IH [OF rest] show ?case
    by simp
qed

lemma match_word_empty: "match_word prev kw [] = None"
  by (cases kw) (simp_all add: match_word_def)

lemma findall_count_occurrences:
  "no_self_overlap kw \<Longrightarrow> findall_count prev kw s = count_occurrences prev kw s"
proof (induction prev kw s rule: findall_count.induct)
  case (1 prev kw s)
  show ?case
  proof (cases "match_word prev kw s")
    case (Some rest)
    then have m: "match_literal kw s = Some rest" and "kw \<noteq> []"
      by (auto simp: match_word_def split: option.splits if_splits)
    then obtain k0 ks where kw: "kw = k0 # ks"
      by (cases kw) auto
    from m have s: "s = k0 # (ks @ rest)"
      by (simp add: match_literal_iff kw)
    from "1.prems" kw have free: "inner_start_free k0 k0 ks"
      by (simp add: no_self_overlap_def)
    have "findall_count prev kw s = Suc (findall_count (Some (last kw)) kw rest)"
      using Some by (simp add: findall_count.simps [of prev kw s])
    also have "\<dots> = Suc (count_occurrences (Some (last kw)) kw rest)"
      using "1.IH"(2) [OF Some "1.prems"] by simp
    also have "\<dots> = Suc (count_occurrences (Some k0) kw (ks @ rest))"
      using no_inner_occurrence [OF free, of ks rest] by (simp add: kw)
    also have "\<dots> = count_occurrences prev kw s"
      using Some by (simp add: s)
    finally show ?thesis .
  next
    case None
    show ?thesis
    proof (cases s)
      case Nil
      with None show ?thesis
        by (simp add: findall_count.simps [of prev kw "[]"])
    next
      case (Cons c cs)
      with None "1.IH"(1) [OF None Cons "1.prems"] show ?thesis
        by (simp add: findall_count.simps [of prev kw "c # cs"])
    qed
  qed
qed

lemma table_no_self_overlap:
  "\<forall>(c, ks) \<in> set SUBJECT_CATEGORIES. \<forall>kw \<in> set ks. no_self_overlap (str_lower kw)"
  by code_simp

lemma table_total_matches:
  assumes "(c, ks) \<in> set SUBJECT_CATEGORIES"
  shows "total_matches ks q = total_occurrences ks q"
proof -
  from assms table_no_self_overlap have "\<forall>kw \<in> set ks. no_self_overlap (str_lower kw)"
    by blast
  then have "map (\<lambda>kw. keyword_matches kw q) ks = map (\<lambda>kw. whole_word_occurrences kw q) ks"
    by (simp add: keyword_matches_def whole_word_occurrences_def findall_count_occurrences)
  then show ?thesis
    unfolding total_matches_def total_occurrences_def by (rule arg_cong)
qed

section \<open>Classifier: the documented examples\<close>

lemma quadratic_formula_example:
  "categorize_question ''What is the quadratic formula?'' = Some ''Mathematics''"
  by code_simp

lemma photosynthesis_example:
  "categorize_question ''Explain photosynthesis'' = Some ''Science''"
  by code_simp

lemma capital_example:
  "categorize_question ''What is the capital of France?'' = Some ''Geography''"
  by code_simp

lemma hello_example:
  "categorize_question ''Hello there'' = None"
  by code_simp

text \<open>
  C9: the classifier maps "What is the quadratic formula?" to Mathematics, "Explain
  photosynthesis" to Science, "What is the capital of France?" to Geography, and
  "Hello there", which holds no keyword of the table, to no label.
\<close>

theorem categorize_question_examples:
  "categorize_question ''What is the quadratic formula?'' = Some ''Mathematics''
   \<and> categorize_question ''Explain photosynthesis'' = Some ''Science''
   \<and> categorize_question ''What is the capital of France?'' = Some ''Geography''
   \<and> categorize_question ''Hello there'' = None"
  using quadratic_formula_example photosynthesis_example capital_example hello_example
  by simp


section \<open>Classifier: the confidence gate\<close>

lemma keyword_score_le_category:
  "kw \<in> set ks \<Longrightarrow> keyword_score (str_lower q) kw \<le> category_score ks q"
  unfolding category_score_def score_keywords_sum
  by (simp add: member_le_sum_list)

text \<open>
  A keyword longer than 6 characters that matches as a whole word scores 2 by itself, so the
  second alternative of the gate, read with whole-word matches, never holds: the gate of the
  specification is the test that the score is at least 2.
\<close>

lemma matched_long_keyword_score:
  "matched_long_keyword ks' q \<Longrightarrow> set ks' \<subseteq> set ks \<Longrightarrow> 2 \<le> category_score ks q"
proof (induction ks')
  case Nil
  then show ?case by simp
next
  case (Cons kw ks')
  show ?case
  proof (cases "length kw > 6 \<and> keyword_matches kw q > 0")
    case True
    then have "2 \<le> keyword_score (str_lower q) kw"
      by (simp add: keyword_score_def keyword_matches_def Let_def)
    moreover from Cons.prems have "kw \<in> set ks"
      by simp
    ultimately show ?thesis
      using keyword_score_le_category [of kw ks q] by simp
  next
    case False
    with Cons show ?thesis
      by auto
  qed
qed

lemma spec_gate_is_score_ge_2:
  "spec_confidence_gate ks q \<longleftrightarrow> 2 \<le> category_score ks q"
  using matched_long_keyword_score [of ks q ks] by (auto simp: spec_confidence_gate_def)

text \<open>
  Whenever the branch for score 1 returns a label, the keyword that opens it has no
  whole-word match in the question: it occurs inside a longer word only.
\<close>

lemma score_one_accepts_partial_only:
  assumes "categorize_question q = Some c" and "top_scoring q c ks 1"
  shows "\<exists>kw \<in> set ks. length kw > 6 \<and> sublist (str_lower kw) (str_lower q)
           \<and> keyword_matches kw q = 0"
proof -
  from assms categorize_question_top [OF assms(2)] obtain kw where
    kw: "kw \<in> set ks" "length kw > 6" "sublist (str_lower kw) (str_lower q)"
    by (auto split: if_splits)
  from assms(2) have "category_score ks q = 1"
    unfolding top_scoring_def by auto
  with keyword_score_le_category [OF kw(1), of q] have "keyword_score (str_lower q) kw \<le> 1"
    by simp
  with kw(2) have "keyword_matches kw q = 0"
    by (simp add: keyword_score_def keyword_matches_def Let_def split: if_splits)
  with kw show ?thesis
    by blast
qed

lemma math_algebraic_result: "categorize_question ''math algebraic'' = Some ''Mathematics''"
  by code_simp

lemma math_algebraic_scores:
  "score_categories SUBJECT_CATEGORIES (str_lower ''math algebraic'') = [(''Mathematics'', 1)]"
  by code_simp

lemma math_algebraic_matches:
  "keyword_matches ''math'' ''math algebraic'' = 1
   \<and> keyword_matches ''algebra'' ''math algebraic'' = 0"
  by code_simp

lemma math_algebraic_gate:
  "\<not> spec_confidence_gate (keywords_of ''Mathematics'') ''math algebraic''"
  by code_simp

text \<open>
  C1: the claim is that a top category with score 1 is returned only when one of its
  keywords that matched the question is longer than 6 characters, which is also what the
  comments of the function say ("Count exact word matches (not partial)", "strong single
  match (longer keyword)"). The code tests \<open>keyword.lower() in question_lower\<close> instead. In
  "math algebraic" the only keyword that matches is "math", of 4 characters: Mathematics is
  the only scored category, its score is 1 and the gate of the claim is closed. The function
  returns Mathematics all the same, because "algebra", which does not match, occurs inside
  "algebraic".
\<close>

theorem categorize_question_partial_match:
  "categorize_question ''math algebraic'' = Some ''Mathematics''
   \<and> score_categories SUBJECT_CATEGORIES (str_lower ''math algebraic'') = [(''Mathematics'', 1)]
   \<and> keyword_matches ''math'' ''math algebraic'' = 1
   \<and> keyword_matches ''algebra'' ''math algebraic'' = 0
   \<and> \<not> spec_confidence_gate (keywords_of ''Mathematics'') ''math algebraic''"
  using math_algebraic_result math_algebraic_scores math_algebraic_matches math_algebraic_gate
  by simp

section \<open>Classifier: two occurrences in a single category\<close>

lemma single_category_by_matches:
  assumes entry: "(c, ks) \<in> set SUBJECT_CATEGORIES"
    and two: "2 \<le> total_matches ks q"
    and others: "\<forall>(c', ks') \<in> set SUBJECT_CATEGORIES. c' \<noteq> c \<longrightarrow> total_matches ks' q = 0"
  shows "categorize_question q = Some c"
proof -
  from entry obtain b a where split: "SUBJECT_CATEGORIES = b @ (c, ks) # a"
    by (auto dest: split_list)
  with table_distinct have "distinct (map fst (b @ (c, ks) # a))"
    by simp
  then have fresh: "c \<notin> fst ` set b" "c \<notin> fst ` set a"
    by auto
  from split have "set SUBJECT_CATEGORIES = set (b @ (c, ks) # a)"
    by simp
  then have sets: "set SUBJECT_CATEGORIES = set b \<union> {(c, ks)} \<union> set a"
    by simp
  have zero: "category_score k q = 0" if "(d, k) \<in> set b \<union> set a" for d k
  proof -
    from that fresh have "d \<noteq> c"
      by force
    moreover from that sets have "(d, k) \<in> set SUBJECT_CATEGORIES"
      by auto
    ultimately have "total_matches k q = 0"
      using others by auto
    then show ?thesis
      by (rule category_score_zero)
  qed
  from two category_score_ge [of ks q] have big: "2 \<le> category_score ks q"
    by simp
  from zero big have "\<forall>(d, k) \<in> set b. category_score k q < category_score ks q"
    and "\<forall>(d, k) \<in> set a. category_score k q \<le> category_score ks q"
    by fastforce+
  with split big have "top_scoring q c ks (category_score ks q)"
    unfolding top_scoring_def by fastforce
  from categorize_question_top [OF this] big show ?thesis
    by simp
qed

text \<open>
  C3: when the keywords of one category of the table occur at least twice in the question
  as whole words, case-insensitively, and no keyword of any other category occurs,
  \<open>categorize_question\<close> returns that category.
\<close>

theorem categorize_question_single_category:
  assumes entry: "(c, ks) \<in> set SUBJECT_CATEGORIES"
    and two: "2 \<le> total_occurrences ks q"
    and others: "\<forall>(c', ks') \<in> set SUBJECT_CATEGORIES. c' \<noteq> c \<longrightarrow> total_occurrences ks' q = 0"
  shows "categorize_question q = Some c"
proof (rule single_category_by_matches [OF entry])
  from two show "2 \<le> total_matches ks q"
    by (simp add: table_total_matches [OF entry])
next
  show "\<forall>(c', ks') \<in> set SUBJECT_CATEGORIES. c' \<noteq> c \<longrightarrow> total_matches ks' q = 0"
  proof (clarify)
    fix c' ks'
    assume e: "(c', ks') \<in> set SUBJECT_CATEGORIES" and "c' \<noteq> c"
    with others have "total_occurrences ks' q = 0"
      by blast
    then show "total_matches ks' q = 0"
      by (simp add: table_total_matches [OF e])
  qed
qed

lemma quadratic_entry:
  "(''Mathematics'', keywords_of ''Mathematics'') \<in> set SUBJECT_CATEGORIES"
  by code_simp

lemma quadratic_occurrences:
  "total_occurrences (keywords_of ''Mathematics'')
     ''Solve the equation with the quadratic formula'' = 3"
  by code_simp

lemma quadratic_others:
  "\<forall>(c', ks') \<in> set SUBJECT_CATEGORIES.
      c' \<noteq> ''Mathematics''
      \<longrightarrow> total_occurrences ks' ''Solve the equation with the quadratic formula'' = 0"
  by code_simp

theorem categorize_question_single_category_witness:
  "(''Mathematics'', keywords_of ''Mathematics'') \<in> set SUBJECT_CATEGORIES
   \<and> total_occurrences (keywords_of ''Mathematics'')
        ''Solve the equation with the quadratic formula'' = 3
   \<and> categorize_question ''Solve the equation with the quadratic formula'' = Some ''Mathematics''"
proof -
  have "2 \<le> total_occurrences (keywords_of ''Mathematics'')
      ''Solve the equation with the quadratic formula''"
    by (simp add: quadratic_occurrences)
  from categorize_question_single_category [OF quadratic_entry this quadratic_others]
  show ?thesis
    using quadratic_entry quadratic_occurrences by simp
qed

section \<open>Persistence: helper lemmas\<close>

lemma set_rating_idem: "set_rating r fb (set_rating r fb e) = set_rating r fb e"
  by (simp add: set_rating_def Let_def)

lemma set_rating_id [simp]: "ce_id (set_rating r fb e) = ce_id e"
  by (simp add: set_rating_def Let_def)

lemma update_first_idem:
  "(\<And>e. f (f e) = f e) \<Longrightarrow> (\<And>e. ce_id (f e) = ce_id e) \<Longrightarrow>
   update_first i f (update_first i f es) = update_first i f es"
  by (induction es) auto

lemma find_update_first:
  "(\<And>e. ce_id (f e) = ce_id e) \<Longrightarrow>
   find (\<lambda>e. ce_id e = i) (update_first i f es) = map_option f (find (\<lambda>e. ce_id e = i) es)"
  by (induction es) auto



lemma foreign_key_init: "foreign_key_ok init_database"
  by (simp add: foreign_key_ok_def init_database_def)

lemma foreign_key_create:
  "foreign_key_ok db \<Longrightarrow> foreign_key_ok (snd (create_study_session db t1 t2 name))"
  by (auto simp: foreign_key_ok_def create_study_session_def Let_def split: option.splits)

lemma foreign_key_save:
  "foreign_key_ok db \<Longrightarrow> foreign_key_ok (snd (save_chat_exchange db t sid q a c))"
  by (auto simp: foreign_key_ok_def save_chat_exchange_def Let_def split: option.splits)

lemma update_first_session_ids:
  "(\<And>e. ce_session_id (f e) = ce_session_id e) \<Longrightarrow>
   map ce_session_id (update_first i f es) = map ce_session_id es"
  by (induction es) auto

lemma set_rating_session_id [simp]: "ce_session_id (set_rating r fb e) = ce_session_id e"
  by (simp add: set_rating_def Let_def)

lemma foreign_key_ok_subset:
  "foreign_key_ok db \<longleftrightarrow>
     set (map ce_session_id (exchanges db)) \<subseteq> set (map ss_id (sessions db))"
  by (auto simp: foreign_key_ok_def)

lemma foreign_key_update:
  assumes "foreign_key_ok db"
  shows "foreign_key_ok (snd (update_exchange_rating db eid r fb))"
proof (cases "find (\<lambda>e. ce_id e = eid) (exchanges db)")
  case None
  with assms show ?thesis by (simp add: update_exchange_rating_def)
next
  case (Some x)
  have "map ce_session_id (update_first eid (set_rating r fb) (exchanges db))
          = map ce_session_id (exchanges db)"
    by (rule update_first_session_ids) simp
  then have "set (map ce_session_id (update_first eid (set_rating r fb) (exchanges db)))
          = set (map ce_session_id (exchanges db))"
    by (rule arg_cong)
  then have "ce_session_id ` set (update_first eid (set_rating r fb) (exchanges db))
          = ce_session_id ` set (exchanges db)"
    by simp
  with assms Some show ?thesis
    by (simp add: update_exchange_rating_def foreign_key_ok_subset)
qed

lemma delete_study_session_cases:
  "delete_study_session db raises sid =
     (if raises = None
      then (True, db\<lparr>exchanges := filter (\<lambda>e. ce_session_id e \<noteq> sid) (exchanges db),
                     sessions := filter (\<lambda>s. ss_id s \<noteq> sid) (sessions db)\<rparr>)
      else (False, db))"
proof (cases raises)
  case None
  then show ?thesis
    by (simp add: delete_study_session_def begin_transaction_def delete_exchanges_of_def
        delete_session_row_def commit_def rollback_def)
next
  case (Some call)
  then show ?thesis
    by (cases call)
       (simp_all add: delete_study_session_def begin_transaction_def delete_exchanges_of_def
        delete_session_row_def commit_def rollback_def)
qed

lemma foreign_key_delete:
  "foreign_key_ok db \<Longrightarrow> foreign_key_ok (snd (delete_study_session db raises sid))"
  by (auto simp: delete_study_session_cases foreign_key_ok_def)

lemma history_query_admissible: "history_query_result db sid (history_query db sid)"
  by (simp add: history_query_result_def history_query_def)

lemma sorted_answer_unique:
  fixes key :: "'a \<Rightarrow> 'k::linorder"
  assumes m: "mset rows = mset xs"
    and s: "sorted (map key rows)"
    and strict: "sorted_wrt (<) (map key xs)"
  shows "rows = xs"
proof -
  from strict have sx: "sorted (map key xs)" and dx: "distinct (map key xs)"
    by (simp_all add: strict_sorted_iff)
  from m have "mset (map key rows) = mset (map key xs)"
    by simp
  from this s have "sort (map key xs) = map key rows"
    by (rule properties_for_sort)
  with sx have keys: "map key rows = map key xs"
    by (simp add: sorted_sort_id)
  from dx have "inj_on key (set xs)"
    by (simp add: distinct_map)
  moreover from m have "set rows = set xs"
    by (rule mset_eq_setD)
  ultimately have "inj_on key (set rows \<union> set xs)"
    by simp
  with keys show ?thesis
    by (simp add: inj_on_map_eq_map)
qed

lemma varchar_take: "varchar n s = Some v \<Longrightarrow> v = take n s"
  by (simp add: varchar_def split: if_splits)

lemma optional_varchar_take:
  "optional_varchar n s = Some v \<Longrightarrow> v = map_option (take n) s"
  by (cases s) (auto simp: optional_varchar_def dest: varchar_take)

lemma save_session_exchanges:
  "filter (\<lambda>e. ce_session_id e = sid) (exchanges (snd (save_chat_exchange db t s q a c)))
   = filter (\<lambda>e. ce_session_id e = sid) (exchanges db)
     @ (case fst (save_chat_exchange db t s q a c) of
          Inl err \<Rightarrow> []
        | Inr key \<Rightarrow>
            if s = sid
            then [\<lparr>ce_id = key, ce_session_id = sid, ce_question = q, ce_answer = a,
                   ce_subject_category = map_option (take 100) c,
                   ce_rating = None, ce_feedback = None, ce_timestamp = t\<rparr>]
            else [])"
  by (auto simp: save_chat_exchange_def Let_def split: option.splits
      dest: optional_varchar_take)

lemma record_exchanges_session:
  assumes "session_requests_accepted db sid reqs"
  shows "\<exists>new. filter (\<lambda>e. ce_session_id e = sid) (exchanges (record_exchanges db reqs))
            = filter (\<lambda>e. ce_session_id e = sid) (exchanges db) @ new
          \<and> map exchange_content new = map request_content (filter (\<lambda>r. rq_session_id r = sid) reqs)"
  using assms
proof (induction reqs arbitrary: db)
  case Nil
  then show ?case by simp
next
  case (Cons r reqs)
  define saved where "saved = save_chat_exchange db (rq_now r) (rq_session_id r) (rq_question r)
          (rq_answer r) (rq_subject_category r)"
  obtain result db' where saved: "saved = (result, db')"
    by (cases saved)
  have step: "record_exchanges db (r # reqs) = record_exchanges db' reqs"
    using saved by (simp add: saved_def [symmetric])
  from Cons.prems saved have acc: "session_requests_accepted db' sid reqs"
    and ok: "rq_session_id r = sid \<longrightarrow> (\<exists>key. result = Inr key)"
    by (auto simp: saved_def [symmetric] split: sum.splits)
  from Cons.IH [OF acc] obtain new where
    n: "filter (\<lambda>e. ce_session_id e = sid) (exchanges (record_exchanges db' reqs))
            = filter (\<lambda>e. ce_session_id e = sid) (exchanges db') @ new"
       "map exchange_content new = map request_content (filter (\<lambda>r. rq_session_id r = sid) reqs)"
    by blast
  from save_session_exchanges [of sid db "rq_now r" "rq_session_id r" "rq_question r"
      "rq_answer r" "rq_subject_category r"] saved
  have row: "filter (\<lambda>e. ce_session_id e = sid) (exchanges db')
      = filter (\<lambda>e. ce_session_id e = sid) (exchanges db)
        @ (case result of
             Inl err \<Rightarrow> []
           | Inr key \<Rightarrow>
               if rq_session_id r = sid
               then [\<lparr>ce_id = key, ce_session_id = sid, ce_question = rq_question r,
                      ce_answer = rq_answer r,
                      ce_subject_category = map_option (take 100) (rq_subject_category r),
                      ce_rating = None, ce_feedback = None, ce_timestamp = rq_now r\<rparr>]
               else [])"
    by (simp add: saved_def [symmetric])
  show ?case
  proof (cases "rq_session_id r = sid")
    case True
    with ok obtain key where key: "result = Inr key"
      by blast
    let ?e = "\<lparr>ce_id = key, ce_session_id = sid, ce_question = rq_question r,
               ce_answer = rq_answer r,
               ce_subject_category = map_option (take 100) (rq_subject_category r),
               ce_rating = None, ce_feedback = None, ce_timestamp = rq_now r\<rparr>"
    from True key row n(1) step have
      "filter (\<lambda>e. ce_session_id e = sid) (exchanges (record_exchanges db (r # reqs)))
         = filter (\<lambda>e. ce_session_id e = sid) (exchanges db) @ (?e # new)"
      by simp
    moreover from True n(2) have
      "map exchange_content (?e # new)
         = map request_content (filter (\<lambda>r. rq_session_id r = sid) (r # reqs))"
      by (simp add: exchange_content_def request_content_def)
    ultimately show ?thesis
      by blast
  next
    case False
    with row have "filter (\<lambda>e. ce_session_id e = sid) (exchanges db')
      = filter (\<lambda>e. ce_session_id e = sid) (exchanges db)"
      by (cases result) simp_all
    with False n step show ?thesis
      by (intro exI [of _ new]) simp
  qed
qed

lemmas column_defs =
  text_ok_def optional_text_ok_def integer_ok_def optional_integer_ok_def max_key_def
  varchar_def optional_varchar_def

lemmas persistence_defs =
  init_database_def create_study_session_def save_chat_exchange_def
  get_chat_history_def history_query_def exchange_to_row_def get_study_sessions_def
  dt_key_def Let_def column_defs

lemmas example_defs =
  at_second_def two_sessions_def request_def interleaved_requests_def
  clock_set_back_requests_def late_first_requests_def stored_example_def

lemma two_sessions_value:
  "two_sessions =
     \<lparr>sessions =
        [\<lparr>ss_id = 1, ss_session_name = ''S1'', ss_created_at = at_second 0,
           ss_updated_at = at_second 0\<rparr>,
         \<lparr>ss_id = 2, ss_session_name = ''S2'', ss_created_at = at_second 1,
           ss_updated_at = at_second 1\<rparr>],
      exchanges = [], next_session_id = 3, next_exchange_id = 1\<rparr>"
  by (simp add: two_sessions_def init_database_def create_study_session_def Let_def column_defs)

lemma stored_example_value:
  "stored_example =
     two_sessions\<lparr>exchanges :=
        [stored_exchange 1 1 ''E1'' 2, stored_exchange 2 2 ''X'' 3,
         stored_exchange 3 1 ''E2'' 4, stored_exchange 5 1 ''E3'' 6],
        next_exchange_id := 6\<rparr>"
  by (simp add: stored_example_def interleaved_requests_def request_def two_sessions_value
      save_chat_exchange_def stored_exchange_def Let_def column_defs)



section \<open>Persistence: rating an exchange\<close>




text \<open>
  C6: rating an exchange twice in succession with the same id, rating and feedback leaves
  the same stored state, and returns the same answer, as rating it once.
\<close>

theorem update_exchange_rating_idempotent:
  "update_exchange_rating (snd (update_exchange_rating db eid r fb)) eid r fb
     = update_exchange_rating db eid r fb"
  by (cases "find (\<lambda>e. ce_id e = eid) (exchanges db)")
     (simp_all add: update_exchange_rating_def find_update_first update_first_idem set_rating_idem)


theorem update_exchange_rating_idempotent_witness:
  "update_exchange_rating
     (snd (update_exchange_rating stored_example 3 (Some 1) (Some ''good''))) 3 (Some 1) (Some ''good'')
   = update_exchange_rating stored_example 3 (Some 1) (Some ''good'')"
  by (rule update_exchange_rating_idempotent)

section \<open>Persistence: deleting a session\<close>

text \<open>
  C4: \<open>delete_study_session\<close> answers with a boolean, \<open>True\<close> exactly when no storage call
  raised. On success the session's exchanges and the session itself are gone, every other
  row is kept, the history of that session is empty and the session is no longer listed; on
  failure the stored state is the one before the call.
\<close>

theorem delete_study_session_atomic:
  "delete_study_session db raises sid = (ok, db') \<Longrightarrow>
     (ok \<longleftrightarrow> raises = None)
     \<and> (ok \<longrightarrow> exchanges db' = filter (\<lambda>e. ce_session_id e \<noteq> sid) (exchanges db)
              \<and> sessions db' = filter (\<lambda>s. ss_id s \<noteq> sid) (sessions db)
              \<and> sid \<notin> set (map ce_session_id (exchanges db'))
              \<and> get_chat_history db' sid = []
              \<and> sid \<notin> set (map sr_id (get_study_sessions db')))
     \<and> (\<not> ok \<longrightarrow> db' = db)"
  by (auto simp: delete_study_session_cases get_chat_history_def history_query_def
      get_study_sessions_def split: if_splits)

theorem delete_study_session_atomic_witness:
  "fst (delete_study_session stored_example None 1)
   \<and> map ce_id (exchanges (snd (delete_study_session stored_example None 1))) = [2]
   \<and> map ss_id (sessions (snd (delete_study_session stored_example None 1))) = [2]
   \<and> get_chat_history (snd (delete_study_session stored_example None 1)) 1 = []
   \<and> delete_study_session stored_example (Some Commit) 1 = (False, stored_example)"
proof -
  define after where "after = snd (delete_study_session stored_example None 1)"
  define failed where "failed = snd (delete_study_session stored_example (Some Commit) 1)"
  have ok: "delete_study_session stored_example None 1 = (True, after)"
    by (simp add: after_def delete_study_session_cases)
  have no: "delete_study_session stored_example (Some Commit) 1 = (False, failed)"
    by (simp add: failed_def delete_study_session_cases)
  from delete_study_session_atomic [OF ok] have
    e: "exchanges after = filter (\<lambda>e. ce_session_id e \<noteq> 1) (exchanges stored_example)"
    and s: "sessions after = filter (\<lambda>s. ss_id s \<noteq> 1) (sessions stored_example)"
    and h: "get_chat_history after 1 = []"
    by blast+
  have "map ce_id (exchanges after) = [2]"
    unfolding e by (simp add: stored_example_value stored_exchange_def)
  moreover have "map ss_id (sessions after) = [2]"
    unfolding s by (simp add: stored_example_value two_sessions_value)
  moreover from delete_study_session_atomic [OF no] have "failed = stored_example"
    by blast
  ultimately show ?thesis
    using ok no h unfolding after_def [symmetric] by simp
qed

text \<open>
  C10: in a database that respects the foreign key of the schema, deleting a session id that
  is not stored returns \<open>True\<close> and changes nothing; \<open>False\<close> is returned only when a storage
  call raises, and the stored state is unchanged then too.
\<close>

theorem delete_missing_session:
  assumes "foreign_key_ok db" and "sid \<notin> set (map ss_id (sessions db))"
  shows "delete_study_session db raises sid = (raises = None, db)"
proof -
  from assms have "filter (\<lambda>e. ce_session_id e \<noteq> sid) (exchanges db) = exchanges db"
    by (auto simp: foreign_key_ok_def filter_id_conv)
  moreover from assms(2) have "filter (\<lambda>s. ss_id s \<noteq> sid) (sessions db) = sessions db"
    by (auto simp: filter_id_conv)
  ultimately show ?thesis
    by (simp add: delete_study_session_cases)
qed

theorem delete_missing_session_witness:
  "foreign_key_ok stored_example \<and> 9 \<notin> set (map ss_id (sessions stored_example))
   \<and> delete_study_session stored_example None 9 = (True, stored_example)
   \<and> delete_study_session stored_example (Some DeleteSession) 9 = (False, stored_example)"
proof -
  have fk: "foreign_key_ok stored_example"
    by (simp add: foreign_key_ok_def stored_example_value two_sessions_value stored_exchange_def)
  have missing: "9 \<notin> set (map ss_id (sessions stored_example))"
    by (simp add: stored_example_value two_sessions_value)
  from delete_missing_session [OF fk missing, of None]
    delete_missing_session [OF fk missing, of "Some DeleteSession"] fk missing
  show ?thesis
    by simp
qed

section \<open>Persistence: order of the history\<close>

text \<open>
  C7, as stated, fails. The creation timestamp is a reading of the wall clock, and the
  history is ordered by it alone. With the clock set back after the first of three exchanges
  of one session, recorded as E1, E2, E3, the history comes back as E2, E3, E1.
\<close>

theorem history_order_counterexample:
  "session_requests_accepted two_sessions 1 clock_set_back_requests
   \<and> map er_question (get_chat_history (record_exchanges two_sessions clock_set_back_requests) 1)
        = [''E2'', ''E3'', ''E1'']"
  by (simp add: persistence_defs example_defs)

text \<open>
  C7, amended: the history of a session is the list of its stored exchanges in ascending
  order of their creation timestamps. When the exchanges recorded for a session that had
  none, each save returning a key, got strictly increasing clock readings in recording
  order, the history lists exactly the recorded exchanges in recording order, whatever is
  recorded for other sessions in between, and every answer the ordered query may give is
  this one. Without that condition the order is the order of the readings, and it is open
  among equal readings.
\<close>

theorem history_in_recording_order:
  "get_chat_history db sid = map exchange_to_row (history_query db sid)
   \<and> mset (history_query db sid) = mset (filter (\<lambda>e. ce_session_id e = sid) (exchanges db))
   \<and> sorted (map (\<lambda>e. dt_key (ce_timestamp e)) (history_query db sid))
   \<and> (sid \<notin> set (map ce_session_id (exchanges db))
        \<and> session_requests_accepted db sid reqs
        \<and> sorted_wrt (<) (map (\<lambda>r. dt_key (rq_now r)) (filter (\<lambda>r. rq_session_id r = sid) reqs))
      \<longrightarrow> map row_content (get_chat_history (record_exchanges db reqs) sid)
             = map request_row (filter (\<lambda>r. rq_session_id r = sid) reqs)
          \<and> (\<forall>rows. history_query_result (record_exchanges db reqs) sid rows
                \<longrightarrow> map exchange_to_row rows = get_chat_history (record_exchanges db reqs) sid))"
proof (intro conjI impI)
  show "get_chat_history db sid = map exchange_to_row (history_query db sid)"
    by (simp add: get_chat_history_def)
  show "mset (history_query db sid) = mset (filter (\<lambda>e. ce_session_id e = sid) (exchanges db))"
    by (simp add: history_query_def)
  show "sorted (map (\<lambda>e. dt_key (ce_timestamp e)) (history_query db sid))"
    by (simp add: history_query_def)
next
  assume h: "sid \<notin> set (map ce_session_id (exchanges db))
        \<and> session_requests_accepted db sid reqs
        \<and> sorted_wrt (<) (map (\<lambda>r. dt_key (rq_now r)) (filter (\<lambda>r. rq_session_id r = sid) reqs))"
  let ?db = "record_exchanges db reqs"
  let ?stored = "filter (\<lambda>e. ce_session_id e = sid) (exchanges ?db)"
  let ?reqs = "filter (\<lambda>r. rq_session_id r = sid) reqs"
  from h have fresh: "sid \<notin> set (map ce_session_id (exchanges db))"
    and accepted: "session_requests_accepted db sid reqs"
    and clock: "sorted_wrt (<) (map (\<lambda>r. dt_key (rq_now r)) ?reqs)"
    by simp_all
  from fresh have "filter (\<lambda>e. ce_session_id e = sid) (exchanges db) = []"
    by (auto simp: filter_empty_conv)
  with record_exchanges_session [OF accepted] have
    content: "map exchange_content ?stored = map request_content ?reqs"
    by auto
  have "map (\<lambda>e. dt_key (ce_timestamp e)) ?stored
      = map (\<lambda>c. dt_key (snd (snd (snd c)))) (map exchange_content ?stored)"
    by (simp add: exchange_content_def)
  also have "\<dots> = map (\<lambda>r. dt_key (rq_now r)) ?reqs"
    by (simp only: content) (simp add: request_content_def)
  finally have strict: "sorted_wrt (<) (map (\<lambda>e. dt_key (ce_timestamp e)) ?stored)"
    using clock by simp
  then have q: "history_query ?db sid = ?stored"
    by (simp add: history_query_def sort_key_id_if_sorted strict_sorted_imp_sorted)
  have "map row_content (map exchange_to_row ?stored)
      = map (\<lambda>c. (fst c, fst (snd c), fst (snd (snd c)), strftime (snd (snd (snd c)))))
          (map exchange_content ?stored)"
    by (simp add: row_content_def exchange_to_row_def exchange_content_def)
  also have "\<dots> = map request_row ?reqs"
    by (simp only: content) (simp add: request_row_def request_content_def)
  finally have first: "map row_content (get_chat_history ?db sid) = map request_row ?reqs"
    by (simp add: get_chat_history_def q)
  have "rows = ?stored" if "history_query_result ?db sid rows" for rows
    using that strict
    by (intro sorted_answer_unique [where key = "\<lambda>e. dt_key (ce_timestamp e)"])
       (simp_all add: history_query_result_def)
  with q have second: "\<forall>rows. history_query_result ?db sid rows
      \<longrightarrow> map exchange_to_row rows = get_chat_history ?db sid"
    by (simp add: get_chat_history_def)
  from first show "map row_content (get_chat_history ?db sid) = map request_row ?reqs" .
  from second show "\<forall>rows. history_query_result ?db sid rows
      \<longrightarrow> map exchange_to_row rows = get_chat_history ?db sid" .
qed

lemma interleaved_accepted: "session_requests_accepted two_sessions 1 interleaved_requests"
  by (simp add: persistence_defs example_defs)

lemma interleaved_clock:
  "sorted_wrt (<) (map (\<lambda>r. dt_key (rq_now r))
     (filter (\<lambda>r. rq_session_id r = 1) interleaved_requests))"
  by (simp add: persistence_defs example_defs)

lemma interleaved_rows:
  "map request_row (filter (\<lambda>r. rq_session_id r = 1) interleaved_requests)
     = [(''E1'', ''answer'', None, ''2024-01-15 10:00:02''),
        (''E2'', ''answer'', None, ''2024-01-15 10:00:04''),
        (''E3'', ''answer'', None, ''2024-01-15 10:00:06'')]"
  by (simp add: example_defs request_row_def strftime_def zero_pad_def str_nat.simps digit_char_def)

lemma late_first_stored:
  "filter (\<lambda>e. ce_session_id e = 1) (exchanges (record_exchanges two_sessions late_first_requests))
     = [stored_exchange 1 1 ''late'' 9, stored_exchange 2 1 ''early'' 7]"
  by (simp add: late_first_requests_def request_def two_sessions_value
      save_chat_exchange_def stored_exchange_def Let_def column_defs)

text \<open>
  The witness: the interleaved recording, and a history that the query has to put in order,
  the exchange stored first carrying the later reading.
\<close>

theorem history_in_recording_order_witness:
  "map row_content (get_chat_history (record_exchanges two_sessions interleaved_requests) 1)
     = [(''E1'', ''answer'', None, ''2024-01-15 10:00:02''),
        (''E2'', ''answer'', None, ''2024-01-15 10:00:04''),
        (''E3'', ''answer'', None, ''2024-01-15 10:00:06'')]
   \<and> map er_question (get_chat_history (record_exchanges two_sessions late_first_requests) 1)
        = [''early'', ''late'']"
proof -
  have fresh: "1 \<notin> set (map ce_session_id (exchanges two_sessions))"
    by (simp add: two_sessions_value)
  from history_in_recording_order [of two_sessions 1 interleaved_requests]
    fresh interleaved_accepted interleaved_clock
  have "map row_content (get_chat_history (record_exchanges two_sessions interleaved_requests) 1)
      = map request_row (filter (\<lambda>r. rq_session_id r = 1) interleaved_requests)"
    by blast
  then have first: "map row_content
      (get_chat_history (record_exchanges two_sessions interleaved_requests) 1)
     = [(''E1'', ''answer'', None, ''2024-01-15 10:00:02''),
        (''E2'', ''answer'', None, ''2024-01-15 10:00:04''),
        (''E3'', ''answer'', None, ''2024-01-15 10:00:06'')]"
    by (simp only: interleaved_rows)
  define db where "db = record_exchanges two_sessions late_first_requests"
  let ?sorted = "[stored_exchange 2 1 ''early'' 7, stored_exchange 1 1 ''late'' 9]"
  from history_in_recording_order [of db 1 "[]"] have
    rows: "get_chat_history db 1 = map exchange_to_row (history_query db 1)"
    and m: "mset (history_query db 1) = mset (filter (\<lambda>e. ce_session_id e = 1) (exchanges db))"
    and s: "sorted (map (\<lambda>e. dt_key (ce_timestamp e)) (history_query db 1))"
    by blast+
  have "filter (\<lambda>e. ce_session_id e = 1) (exchanges db)
      = [stored_exchange 1 1 ''late'' 9, stored_exchange 2 1 ''early'' 7]"
    unfolding db_def by (rule late_first_stored)
  then have "mset (filter (\<lambda>e. ce_session_id e = 1) (exchanges db)) = mset ?sorted"
    by (simp only: mset.simps) simp
  with m have "mset (history_query db 1) = mset ?sorted"
    by (simp only:)
  moreover have "sorted_wrt (<) (map (\<lambda>e. dt_key (ce_timestamp e)) ?sorted)"
    by (simp add: stored_exchange_def at_second_def dt_key_def)
  ultimately have "history_query db 1 = ?sorted"
    using s by (intro sorted_answer_unique [where key = "\<lambda>e. dt_key (ce_timestamp e)"])
  with rows have "map er_question (get_chat_history db 1) = [''early'', ''late'']"
    by (simp add: exchange_to_row_def stored_exchange_def)
  with first show ?thesis
    by (simp add: db_def)
qed

section \<open>Persistence: statistics\<close>

text \<open>
  C2: the claim asks for the mean of the ratings whenever a rating exists. The code tests the
  mean for truth (\<open>if avg_rating\<close>), so a mean of zero is reported as absent: after session
  S1 with two exchanges rated +1 and -1 and session S2 without exchanges, the statistics
  count 2 sessions and 2 exchanges, and the average rating is \<open>None\<close>, not 0.0.
\<close>

theorem stats_zero_mean_absent:
  "(let (s1, db1) = create_study_session init_database (at_second 0) (at_second 0) ''S1'';
        (s2, db2) = create_study_session db1 (at_second 1) (at_second 1) ''S2'';
        (e1, db3) = save_chat_exchange db2 (at_second 2) 1 ''Q1'' ''A1'' None;
        (e2, db4) = save_chat_exchange db3 (at_second 3) 1 ''Q2'' ''A2'' None;
        (ok1, db5) = update_exchange_rating db4 1 (Some 1) None;
        (ok2, db6) = update_exchange_rating db5 2 (Some (- 1)) None
    in (s1, s2, e1, e2, ok1, ok2, non_null_ratings db6, get_session_stats db6))
   = (Inr 1, Inr 2, Inr 1, Inr 2, Inr True, Inr True, [1, - 1],
      \<lparr>total_sessions = 2, total_exchanges = 2, average_rating = None\<rparr>)"
  by (simp add: init_database_def create_study_session_def save_chat_exchange_def
      update_exchange_rating_def set_rating_def truthy_str_def get_session_stats_def
      non_null_ratings_def avg_def List.map_filter_def Let_def column_defs)

section \<open>Export\<close>

lemma write_exchanges_blocks:
  "write_exchanges out i history =
     out @ concat (map (\<lambda>k. write_exchange (i + k) (history ! k)) [0..<length history])"
proof (induction history arbitrary: out i)
  case Nil
  then show ?case by simp
next
  case (Cons e history)
  have "map (\<lambda>k. write_exchange (i + k) ((e # history) ! k)) [0..<length (e # history)]
          = write_exchange i e # map (\<lambda>k. write_exchange (Suc i + k) (history ! k)) [0..<length history]"
    by (simp add: upt_conv_Cons map_Suc_upt [symmetric] del: upt_Suc)
  with Cons.IH [of "out @ write_exchange i e" "Suc i"] show ?case
    by simp
qed

lemma write_header_texts: "write_header session = text_lines (header_texts session)"
  by (simp add: write_header_def text_lines_def header_texts_def)

lemma write_exchange_texts: "write_exchange i e = text_lines (block_texts i e)"
  by (simp add: write_exchange_def text_lines_def block_texts_def question_line_def
      split: option.splits)

lemma text_lines_append: "text_lines (xs @ ys) = text_lines xs @ text_lines ys"
  by (simp add: text_lines_def)

lemma text_lines_blocks:
  "concat (map (\<lambda>k. text_lines (f k)) ks) = text_lines (concat (map f ks))"
  by (induction ks) (simp_all add: text_lines_append, simp add: text_lines_def)

lemma export_texts:
  "export_session_notes session =
     text_lines (header_texts session
       @ concat (map (\<lambda>k. block_texts (Suc k) (sd_history session ! k))
                  [0..<length (sd_history session)]))"
  by (simp add: export_session_notes_def write_exchanges_blocks write_header_texts
      write_exchange_texts text_lines_append text_lines_blocks)

lemma concat_map_concat:
  "concat (map g (concat (map f ks))) = concat (map (\<lambda>k. concat (map g (f k))) ks)"
  by (induction ks) simp_all

lemma split_lines_not_Nil: "split_lines s \<noteq> []"
  by (induction s) (auto split: list.splits)

lemma split_lines_append:
  "split_lines (a @ CHR ''\<newline>'' # b) = split_lines a @ split_lines b"
proof (induction a)
  case Nil
  then show ?case by simp
next
  case (Cons c a)
  then show ?case
    using split_lines_not_Nil [of a] by (auto split: list.splits)
qed

lemma split_lines_line:
  "CHR ''\<newline>'' \<notin> set p \<Longrightarrow>
   split_lines (p @ t) = (p @ hd (split_lines t)) # tl (split_lines t)"
proof (induction p)
  case Nil
  then show ?case
    using split_lines_not_Nil [of t] by simp
next
  case (Cons c p)
  then show ?case
    by (auto split: list.splits)
qed

lemma split_lines_single: "CHR ''\<newline>'' \<notin> set s \<Longrightarrow> split_lines s = [s]"
  using split_lines_line [of s "[]"] by simp

lemma headings_Nil: "headings [] = []"
  by (simp add: headings_def is_heading_def)

lemma headings_append:
  "headings (a @ CHR ''\<newline>'' # b) = headings a @ headings b"
  by (simp add: headings_def split_lines_append)

lemma headings_text_lines: "headings (text_lines ts) = concat (map headings ts)"
proof (induction ts)
  case Nil
  then show ?case by (simp add: text_lines_def headings_Nil)
next
  case (Cons t ts)
  have "text_lines (t # ts) = t @ CHR ''\<newline>'' # text_lines ts"
    by (simp add: text_lines_def)
  with Cons show ?case
    by (simp add: headings_append)
qed

lemma not_heading_start: "c \<noteq> CHR ''Q'' \<Longrightarrow> \<not> is_heading (c # s)"
  by (simp add: is_heading_def)

lemma headings_labelled:
  assumes "CHR ''\<newline>'' \<notin> set (c # p)" and "c \<noteq> CHR ''Q''" and "plain_text t"
  shows "headings ((c # p) @ t) = []"
proof -
  from assms(3) have "\<forall>l \<in> set (split_lines t). \<not> is_heading l"
    by (simp add: plain_text_def headings_def filter_empty_conv)
  moreover have "set (tl (split_lines t)) \<subseteq> set (split_lines t)"
    using split_lines_not_Nil [of t] by (cases "split_lines t") auto
  ultimately have rest: "filter is_heading (tl (split_lines t)) = []"
    by (auto simp: filter_empty_conv)
  have lines: "split_lines ((c # p) @ t) = ((c # p) @ hd (split_lines t)) # tl (split_lines t)"
    by (rule split_lines_line [OF assms(1)])
  from assms(2) have "\<not> is_heading ((c # p) @ hd (split_lines t))"
    by (simp add: not_heading_start)
  with rest show ?thesis
    unfolding headings_def lines by simp
qed

lemma headings_other_line:
  "CHR ''\<newline>'' \<notin> set s \<Longrightarrow> \<not> is_heading s \<Longrightarrow> headings s = []"
  by (simp add: headings_def split_lines_single)

lemma digit_cases:
  assumes "d < (10::nat)"
  obtains "d = 0" | "d = 1" | "d = 2" | "d = 3" | "d = 4" | "d = 5" | "d = 6"
    | "d = 7" | "d = 8" | "d = 9"
  using assms by atomize_elim arith

lemma digit_char_digit: "d < 10 \<Longrightarrow> digit_char d \<in> set ''0123456789''"
  by (erule digit_cases) (simp_all add: digit_char_def)

lemma digit_char_zero: "d < 10 \<Longrightarrow> digit_char d = CHR ''0'' \<Longrightarrow> d = 0"
  by (erule digit_cases) (simp_all add: digit_char_def)

lemma str_nat_decimal:
  "str_nat n \<noteq> [] \<and> list_all (\<lambda>c. c \<in> set ''0123456789'') (str_nat n)
   \<and> (hd (str_nat n) = CHR ''0'' \<longrightarrow> n = 0)"
proof (induction n rule: str_nat.induct)
  case (1 n)
  show ?case
  proof (cases "n < 10")
    case True
    then have "str_nat n = [digit_char n]"
      by (simp add: str_nat.simps [of n])
    with True show ?thesis
      using digit_char_digit [of n] digit_char_zero [of n] by auto
  next
    case False
    then have s: "str_nat n = str_nat (n div 10) @ [digit_char (n mod 10)]"
      by (simp add: str_nat.simps [of n])
    from False have "n div 10 \<noteq> 0"
      by simp
    with "1.IH" [OF False] s digit_char_digit [of "n mod 10"] show ?thesis
      by auto
  qed
qed

lemma str_nat_zero: "str_nat 0 = ''0''"
  by (simp add: str_nat.simps [of 0] digit_char_def)

lemma is_decimal_str_nat: "is_decimal (str_nat n)"
  using str_nat_decimal [of n] str_nat_zero by (auto simp: is_decimal_def)

lemma str_nat_no_newline: "CHR ''\<newline>'' \<notin> set (str_nat n)"
proof
  assume "CHR ''\<newline>'' \<in> set (str_nat n)"
  moreover from str_nat_decimal [of n] have "\<forall>c \<in> set (str_nat n). c \<in> set ''0123456789''"
    by (simp add: list_all_iff)
  ultimately have "CHR ''\<newline>'' \<in> set ''0123456789''"
    by blast
  then show False
    by simp
qed

lemma is_heading_question_line: "is_heading (question_line i)"
proof -
  have "match_literal ''Question '' (question_line i) = Some (str_nat i @ '':'')"
    by (simp add: question_line_def)
  then show ?thesis
    by (simp add: is_heading_def is_decimal_str_nat)
qed

lemma headings_question_line: "headings (question_line i) = [question_line i]"
proof -
  have "CHR ''\<newline>'' \<notin> set (question_line i)"
    using str_nat_no_newline [of i] by (simp add: question_line_def)
  then show ?thesis
    by (simp add: headings_def split_lines_single is_heading_question_line)
qed

lemma zero_pad_no_newline: "CHR ''\<newline>'' \<notin> set (zero_pad w n)"
  using str_nat_no_newline [of n] by (simp add: zero_pad_def)

lemma str_datetime_no_newline: "CHR ''\<newline>'' \<notin> set (str_datetime t)"
  by (simp add: str_datetime_def zero_pad_no_newline)

lemma headings_header:
  assumes "plain_text (sd_name session)"
  shows "concat (map headings (header_texts session)) = []"
proof -
  have "headings (''Study Session: '' @ sd_name session) = []"
    using headings_labelled [of "CHR ''S''" "''tudy Session: ''" "sd_name session"] assms
    by simp
  moreover have "headings (''Created: '' @ str_datetime (sd_created_at session)) = []"
    by (rule headings_other_line) (simp_all add: str_datetime_no_newline not_heading_start)
  moreover have "headings (replicate 50 (CHR ''='')) = []"
    by (rule headings_other_line) (simp_all add: is_heading_def numeral_eq_Suc)
  ultimately show ?thesis
    by (simp add: header_texts_def headings_Nil)
qed

lemma headings_block:
  assumes "plain_row e"
  shows "concat (map headings (block_texts i e)) = [question_line i]"
proof -
  from assms have q: "headings (er_question e) = []" and a: "headings (er_answer e) = []"
    and c: "plain_optional (er_subject_category e)" and f: "plain_optional (er_feedback e)"
    and t: "plain_text (er_timestamp e)"
    by (simp_all add: plain_row_def plain_text_def)
  have answer: "headings (''Answer '' @ str_nat i @ '':'') = []"
    by (rule headings_other_line) (simp_all add: str_nat_no_newline not_heading_start)
  have subject: "headings (''Subject: '' @ v) = []" if "er_subject_category e = Some v" for v
    using headings_labelled [of "CHR ''S''" "''ubject: ''" v] c that
    by (simp add: plain_optional_def)
  have feedback: "headings (''Feedback: '' @ v) = []" if "er_feedback e = Some v" for v
    using headings_labelled [of "CHR ''F''" "''eedback: ''" v] f that
    by (simp add: plain_optional_def)
  have rating: "headings (''Rating: '' @ thumbs_up) = []" "headings (''Rating: '' @ thumbs_down) = []"
    by (rule headings_other_line; simp add: thumbs_up_def thumbs_down_def not_heading_start)+
  have time: "headings (''Time: '' @ er_timestamp e) = []"
    using headings_labelled [of "CHR ''T''" "''ime: ''" "er_timestamp e"] t by simp
  have rule: "headings (replicate 30 (CHR ''-'')) = []"
    by (rule headings_other_line) (simp_all add: is_heading_def numeral_eq_Suc)
  have s: "concat (map headings
      (case er_subject_category e of
         Some category \<Rightarrow> if category \<noteq> [] then [''Subject: '' @ category] else []
       | None \<Rightarrow> [])) = []"
    by (cases "er_subject_category e") (simp_all add: subject del: append_Cons)
  have r: "concat (map headings
      (case er_rating e of
         Some rating \<Rightarrow>
           if rating \<noteq> 0
           then [''Rating: '' @ (if rating > 0 then thumbs_up else thumbs_down)]
           else []
       | None \<Rightarrow> [])) = []"
    by (cases "er_rating e") (simp_all add: rating del: append_Cons)
  have fb: "concat (map headings
      (case er_feedback e of
         Some feedback \<Rightarrow> if feedback \<noteq> [] then [''Feedback: '' @ feedback] else []
       | None \<Rightarrow> [])) = []"
    by (cases "er_feedback e") (simp_all add: feedback del: append_Cons)
  show ?thesis
    unfolding block_texts_def map_append concat_append s r fb
    by (simp add: headings_question_line headings_Nil q a answer time rule del: append_Cons)
qed

text \<open>
  C8, as stated, fails: what the export holds depends on the texts it copies. A session with
  one exchange whose question holds a line "Question 2:" exports a document with the lines
  "Question 1:" and "Question 2:", and a session without exchanges whose name holds a line
  "Question 1:" exports a header with that line.
\<close>

theorem export_session_notes_counterexample:
  "length (sd_history quoting_session_data) = 1
   \<and> headings (export_session_notes quoting_session_data) = [''Question 1:'', ''Question 2:'']
   \<and> length (sd_history quoting_name_session_data) = 0
   \<and> headings (export_session_notes quoting_name_session_data) = [''Question 1:'']"
  by code_simp

text \<open>
  C8, amended: the export is the header, made of the line "Study Session: " with the session
  name, the line "Created: " with the creation time, a line of 50 equals signs and an empty
  line, followed by one block per exchange, in order, block number k opening with the line
  "Question k:" and the question of the k-th exchange. When no text of the session (its
  name, and the question, answer, subject, feedback and time of its exchanges) holds a line
  of the form "Question k:", the lines of this form in the export are exactly "Question 1:"
  to "Question N:", in this order, for a session with N exchanges, and there is none for a
  session without exchanges.
\<close>

theorem export_session_notes_blocks:
  "export_session_notes session =
     ''Study Session: '' @ sd_name session @ ''\<newline>''
     @ ''Created: '' @ str_datetime (sd_created_at session) @ ''\<newline>''
     @ replicate 50 (CHR ''='') @ ''\<newline>\<newline>''
     @ concat (map (\<lambda>k. write_exchange (Suc k) (sd_history session ! k))
                [0..<length (sd_history session)])
   \<and> (\<forall>k < length (sd_history session).
         prefix (question_line (Suc k) @ ''\<newline>'' @ er_question (sd_history session ! k)
                   @ ''\<newline>\<newline>'')
                (write_exchange (Suc k) (sd_history session ! k)))
   \<and> (plain_session session
        \<longrightarrow> headings (export_session_notes session)
              = map question_line [1..<Suc (length (sd_history session))])"
proof (intro conjI allI impI)
  show "export_session_notes session =
     ''Study Session: '' @ sd_name session @ ''\<newline>''
     @ ''Created: '' @ str_datetime (sd_created_at session) @ ''\<newline>''
     @ replicate 50 (CHR ''='') @ ''\<newline>\<newline>''
     @ concat (map (\<lambda>k. write_exchange (Suc k) (sd_history session ! k))
                [0..<length (sd_history session)])"
    by (simp add: export_session_notes_def write_exchanges_blocks write_header_def)
next
  fix k
  show "prefix (question_line (Suc k) @ ''\<newline>'' @ er_question (sd_history session ! k)
                   @ ''\<newline>\<newline>'')
                (write_exchange (Suc k) (sd_history session ! k))"
    by (simp add: write_exchange_def question_line_def prefix_def)
next
  assume plain: "plain_session session"
  let ?h = "sd_history session"
  from plain have name: "plain_text (sd_name session)"
    and rows: "\<forall>k < length ?h. plain_row (?h ! k)"
    by (simp_all add: plain_session_def list_all_length)
  have "concat (map headings (concat (map (\<lambda>k. block_texts (Suc k) (?h ! k)) [0..<length ?h])))
      = concat (map (\<lambda>k. concat (map headings (block_texts (Suc k) (?h ! k)))) [0..<length ?h])"
    by (rule concat_map_concat)
  also have "\<dots> = concat (map (\<lambda>k. [question_line (Suc k)]) [0..<length ?h])"
    using rows by (intro arg_cong [where f = concat] map_cong refl) (simp add: headings_block)
  also have "\<dots> = map question_line (map Suc [0..<length ?h])"
    by (induction "[0..<length ?h]") (simp_all add: comp_def concat_map_singleton)
  also have "map Suc [0..<length ?h] = [1..<Suc (length ?h)]"
    by (simp add: map_Suc_upt)
  finally show "headings (export_session_notes session)
      = map question_line [1..<Suc (length (sd_history session))]"
    by (simp add: export_texts headings_text_lines headings_header [OF name])
qed

lemma demo_plain: "plain_session demo_session_data"
  by code_simp

lemma demo_history_length: "length (sd_history demo_session_data) = 2"
  by (simp add: demo_session_data_def)

theorem export_session_notes_blocks_witness:
  "export_session_notes demo_session_data =
     ''Study Session: S1\<newline>Created: 2024-01-15 10:00:00\<newline>''
     @ ''==================================================\<newline>\<newline>''
     @ ''Question 1:\<newline>Q1\<newline>\<newline>Answer 1:\<newline>A1\<newline>\<newline>''
     @ ''Subject: Science\<newline>Time: 2024-01-15 10:00:02\<newline>''
     @ ''------------------------------\<newline>\<newline>''
     @ ''Question 2:\<newline>Q2\<newline>\<newline>Answer 2:\<newline>A2\<newline>\<newline>''
     @ ''Time: 2024-01-15 10:00:02\<newline>''
     @ ''------------------------------\<newline>\<newline>''
   \<and> headings (export_session_notes demo_session_data) = [''Question 1:'', ''Question 2:'']"
proof -
  have "''Study Session: '' @ sd_name demo_session_data @ ''\<newline>''
     @ ''Created: '' @ str_datetime (sd_created_at demo_session_data) @ ''\<newline>''
     @ replicate 50 (CHR ''='') @ ''\<newline>\<newline>''
     @ concat (map (\<lambda>k. write_exchange (Suc k) (sd_history demo_session_data ! k))
                [0..<length (sd_history demo_session_data)])
    = ''Study Session: S1\<newline>Created: 2024-01-15 10:00:00\<newline>''
     @ ''==================================================\<newline>\<newline>''
     @ ''Question 1:\<newline>Q1\<newline>\<newline>Answer 1:\<newline>A1\<newline>\<newline>''
     @ ''Subject: Science\<newline>Time: 2024-01-15 10:00:02\<newline>''
     @ ''------------------------------\<newline>\<newline>''
     @ ''Question 2:\<newline>Q2\<newline>\<newline>Answer 2:\<newline>A2\<newline>\<newline>''
     @ ''Time: 2024-01-15 10:00:02\<newline>''
     @ ''------------------------------\<newline>\<newline>''"
    by code_simp
  moreover have "map question_line [1..<Suc (length (sd_history demo_session_data))]
      = [''Question 1:'', ''Question 2:'']"
    by code_simp
  moreover from export_session_notes_blocks [of demo_session_data] have
    "export_session_notes demo_session_data =
     ''Study Session: '' @ sd_name demo_session_data @ ''\<newline>''
     @ ''Created: '' @ str_datetime (sd_created_at demo_session_data) @ ''\<newline>''
     @ replicate 50 (CHR ''='') @ ''\<newline>\<newline>''
     @ concat (map (\<lambda>k. write_exchange (Suc k) (sd_history demo_session_data ! k))
                [0..<length (sd_history demo_session_data)])"
    and "plain_session demo_session_data
        \<longrightarrow> headings (export_session_notes demo_session_data)
              = map question_line [1..<Suc (length (sd_history demo_session_data))]"
    by blast+
  ultimately show ?thesis
    using demo_plain by (simp only: simp_thms)
qed

end
